theory Spec2Isabelle
  imports Main
begin

section \<open>JavaScript values used by the Outlook channel\<close>

text \<open>
  Strings are byte lists. A thrown value is an \<open>Error\<close> object carrying its message;
  \<open>String(err)\<close> prints it as \<open>Error: message\<close>. Numbers are integers (no fractions,
  no NaN); instants are milliseconds, as \<open>Date.now()\<close> gives them.
\<close>

datatype exn = Error string

definition String_err :: "exn \<Rightarrow> string" where
  "String_err e = (case e of Error m \<Rightarrow> ''Error: '' @ m)"

text \<open>\<open>String(n)\<close> for an integer: its decimal digits.\<close>

definition digit :: "nat \<Rightarrow> char" where
  "digit d = ''0123456789'' ! d"

fun String_nat :: "nat \<Rightarrow> string" where
  "String_nat n = (if n < 10 then [digit n] else String_nat (n div 10) @ [digit (n mod 10)])"

declare String_nat.simps [simp del]

definition String_int :: "int \<Rightarrow> string" where
  "String_int i = (if i < 0 then CHR ''-'' # String_nat (nat (- i)) else String_nat (nat i))"

text \<open>\<open>x || y\<close> on \<open>string | undefined\<close>: the empty string and \<open>undefined\<close> are falsy.\<close>

definition truthy :: "string option \<Rightarrow> bool" where
  "truthy x = (case x of None \<Rightarrow> False | Some s \<Rightarrow> s \<noteq> [])"

definition or_else :: "string option \<Rightarrow> string option \<Rightarrow> string option" where
  "or_else x y = (if truthy x then x else y)"

definition or_default :: "string option \<Rightarrow> string \<Rightarrow> string" where
  "or_default x d = (case x of None \<Rightarrow> d | Some s \<Rightarrow> if s \<noteq> [] then s else d)"

text \<open>\<open>String.prototype.trim\<close>, on the ASCII white space characters.\<close>

definition isSpace :: "char \<Rightarrow> bool" where
  "isSpace c = (c \<in> set [CHR '' '', CHR 0x09, CHR 0x0A, CHR 0x0B, CHR 0x0C, CHR 0x0D])"

definition trim :: "string \<Rightarrow> string" where
  "trim s = rev (dropWhile isSpace (rev (dropWhile isSpace s)))"

text \<open>\<open>String.prototype.toLowerCase\<close>, on the ASCII letters; other bytes are kept.\<close>

definition lowerChar :: "char \<Rightarrow> char" where
  "lowerChar c =
     (case map_of (zip ''ABCDEFGHIJKLMNOPQRSTUVWXYZ'' ''abcdefghijklmnopqrstuvwxyz'') c of
        None \<Rightarrow> c
      | Some l \<Rightarrow> l)"

definition toLowerCase :: "string \<Rightarrow> string" where
  "toLowerCase s = map lowerChar s"

text \<open>\<open>Array.prototype.join\<close>.\<close>

fun join :: "string \<Rightarrow> string list \<Rightarrow> string" where
  "join sep [] = []"
| "join sep [x] = x"
| "join sep (x # y # ys) = x @ sep @ join sep (y # ys)"

section \<open>HTTP requests, responses and the observable trace\<close>

text \<open>
  A request keeps its URL structured: the base, the path segments before percent-encoding
  and the query pairs handed to \<open>URLSearchParams\<close>. A JSON body is kept as the value given
  to \<open>JSON.stringify\<close>, a form body as the pairs given to \<open>URLSearchParams\<close>.
\<close>

datatype json = JStr string | JBool bool | JObj "(string \<times> json) list" | JArr "json list"

datatype body = NoBody | FormBody "(string \<times> string) list" | JsonBody json

record request =
  url_base :: string
  url_path :: "string list"
  url_query :: "(string \<times> string) list"
  req_method :: string
  req_headers :: "(string \<times> string) list"
  req_body :: body

text \<open>\<open>GraphMessage\<close> of graph.ts. The optional chains \<open>msg.from?.emailAddress?.address\<close>,
  \<open>msg.from?.emailAddress?.name\<close> and \<open>msg.body?.content\<close> of the monitor are the three
  optional fields: \<open>None\<close> when a link of the chain is missing.\<close>

record GraphMessage =
  msg_id :: string
  subject :: string
  body_content :: "string option"
  from_address :: "string option"
  from_name :: "string option"
  receivedDateTime :: string
  isRead :: bool
  conversationId :: "string option"

text \<open>A response: \<open>res.ok\<close>, \<open>res.status\<close>, \<open>res.text()\<close>, and the fields that the code reads
  from \<open>res.json()\<close>: \<open>access_token\<close> and \<open>expires_in\<close> (token endpoint), \<open>value\<close> (message
  listing), \<open>id\<close> (created draft).\<close>

record response =
  res_ok :: bool
  res_status :: nat
  res_text :: string
  json_access_token :: string
  json_expires_in :: int
  json_value :: "GraphMessage list"
  json_id :: string

text \<open>\<open>fetch\<close> settles after some latency, with a response or with a thrown network error.\<close>

record fetch_result =
  latency :: nat
  outcome :: "exn + response"

text \<open>The context handed to the host runtime (monitor.ts, the argument of
  \<open>finalizeInboundContext\<close>).\<close>

record inbound_ctx =
  Body :: string
  RawBody :: string
  CommandBody :: string
  From :: string
  To :: string
  SessionKey :: string
  AccountId :: string
  ChatType :: string
  ConversationLabel :: string
  SenderName :: string
  SenderId :: string
  Provider :: string
  Surface :: string
  MessageSid :: string
  Timestamp :: int
  WasMentioned :: bool
  CommandAuthorized :: bool
  OriginatingChannel :: string
  OriginatingTo :: string

record reply_payload =
  payload_text :: "string option"

text \<open>Everything the channel does that the outside can see, in order: network calls with
  their outcome, log lines, and the calls across the host-runtime boundary.\<close>

datatype event =
    Fetch request "exn + response"
  | LogInfo string
  | LogError string
  | LogDebug string
  | DispatchStart inbound_ctx
  | SinkCall reply_payload string
  | DispatchIdle

text \<open>
  Modelled from the spec: the host runtime's dispatch (\<open>createReplyDispatcherWithTyping\<close>,
  \<open>dispatchReplyFromConfig\<close> of the plugin SDK) is not among the sources. Section 6 of the
  specification describes it as a function that accepts the inbound context and a reply sink,
  invokes the sink zero or more times with text chunks tagged with a kind, then signals
  completion; section 7 lets it throw. One run of it is a tree: it completes, throws, lets
  time pass, or invokes the sink with a payload and a kind and goes on according to what the
  sink call returned (\<open>None\<close>) or threw.
\<close>

datatype dispatch_run =
    Completed
  | Thrown exn
  | Elapse nat dispatch_run
  | Invoke reply_payload string "exn option \<Rightarrow> dispatch_run"

section \<open>token.ts\<close>

record OutlookCredentials =
  appId :: string
  appSecret :: string
  tenantId :: string

record OutlookChannelConfig =
  enabled :: "bool option"
  oc_appId :: "string option"
  oc_appPassword :: "string option"
  oc_tenantId :: "string option"
  mailbox :: "string option"
  pollIntervalMs :: "int option"
  draftOnly :: "bool option"

record OpenClawConfig =
  channels :: "(string \<rightharpoonup> OutlookChannelConfig) option"

text \<open>
  Modelled from the spec: \<open>PluginRuntime\<close> of the plugin SDK is not among the sources; it is
  kept as far as the channel uses it (\<open>core.channel.reply\<close>): the normalisation of the
  inbound context, and the dispatch, whose run is decided by the context and the
  configuration it is given.
\<close>

record PluginRuntime =
  finalizeInboundContext :: "inbound_ctx \<Rightarrow> inbound_ctx"
  dispatchReplyFromConfig :: "inbound_ctx \<Rightarrow> OpenClawConfig \<Rightarrow> dispatch_run"

record CachedToken =
  token :: string
  expiresAt :: int

text \<open>The mutable state of the process: the clock read by \<open>Date.now()\<close>, the module-level
  \<open>tokenCache\<close> of token.ts, the module-level \<open>runtime\<close> of runtime.ts, and the trace.\<close>

record world =
  clock :: int
  tokenCache :: "CachedToken option"
  runtime :: "PluginRuntime option"
  trace :: "event list"

text \<open>The surroundings: the instant at which the \<open>AbortSignal\<close> fires (if ever) and its
  \<open>reason\<close>, the network
  (which may answer according to everything that happened before), \<open>process.env\<close>, and
  \<open>new Date(s).getTime()\<close>.\<close>

record env =
  abortAt :: "int option"
  abortReason :: exn
  fetch :: "event list \<Rightarrow> request \<Rightarrow> fetch_result"
  process_env :: "string \<rightharpoonup> string"
  Date_getTime :: "string \<Rightarrow> int"

definition do_fetch :: "env \<Rightarrow> request \<Rightarrow> world \<Rightarrow> (exn + response) \<times> world" where
  "do_fetch E req w =
     (let r = fetch E (trace w) req
      in (outcome r, w\<lparr>clock := clock w + int (latency r), trace := trace w @ [Fetch req (outcome r)]\<rparr>))"

definition resolveOutlookChannelConfig :: "OpenClawConfig \<Rightarrow> OutlookChannelConfig option" where
  "resolveOutlookChannelConfig cfg = (case channels cfg of None \<Rightarrow> None | Some m \<Rightarrow> m ''outlook'')"

definition resolveOutlookCredentials :: "env \<Rightarrow> OutlookChannelConfig option \<Rightarrow> OutlookCredentials option" where
  "resolveOutlookCredentials E oc =
     (let a = or_else (map_option trim (Option.bind oc oc_appId))
                (map_option trim (process_env E ''OUTLOOK_APP_ID''));
          s = or_else (map_option trim (Option.bind oc oc_appPassword))
                (map_option trim (process_env E ''OUTLOOK_APP_SECRET''));
          t = or_else (map_option trim (Option.bind oc oc_tenantId))
                (map_option trim (process_env E ''OUTLOOK_TENANT_ID''))
      in if \<not> truthy a \<or> \<not> truthy s \<or> \<not> truthy t then None
         else Some \<lparr>appId = the a, appSecret = the s, tenantId = the t\<rparr>)"

definition token_request :: "OutlookCredentials \<Rightarrow> request" where
  "token_request creds =
     \<lparr>url_base = ''https://login.microsoftonline.com'',
      url_path = [tenantId creds, ''oauth2'', ''v2.0'', ''token''],
      url_query = [],
      req_method = ''POST'',
      req_headers = [(''Content-Type'', ''application/x-www-form-urlencoded'')],
      req_body = FormBody
        [(''grant_type'', ''client_credentials''),
         (''client_id'', appId creds),
         (''client_secret'', appSecret creds),
         (''scope'', ''https://graph.microsoft.com/.default'')]\<rparr>"

definition getGraphAccessToken :: "env \<Rightarrow> OutlookCredentials \<Rightarrow> world \<Rightarrow> (exn + string) \<times> world" where
  "getGraphAccessToken E creds w =
     (let now = clock w in
      if (case tokenCache w of None \<Rightarrow> False | Some c \<Rightarrow> expiresAt c > now + 60000)
      then (Inr (token (the (tokenCache w))), w)
      else
        (case do_fetch E (token_request creds) w of
           (Inl e, w1) \<Rightarrow> (Inl e, w1)
         | (Inr res, w1) \<Rightarrow>
             if \<not> res_ok res then
               (Inl (Error (''outlook token request failed '' @ String_nat (res_status res)
                            @ '': '' @ res_text res)), w1)
             else
               (Inr (json_access_token res),
                w1\<lparr>tokenCache := Some \<lparr>token = json_access_token res,
                                        expiresAt = now + json_expires_in res * 1000\<rparr>\<rparr>)))"

section \<open>graph.ts\<close>

definition GRAPH :: string where
  "GRAPH = ''https://graph.microsoft.com/v1.0''"

text \<open>\<open>graphFetch\<close>: every call first obtains the token, then issues the request with the
  bearer header. The method and the body are the \<open>opts\<close> of the source (\<open>GET\<close> and no body
  when the source gives none); no caller passes headers of its own.\<close>

definition graphFetch ::
  "env \<Rightarrow> OutlookCredentials \<Rightarrow> string list \<Rightarrow> (string \<times> string) list \<Rightarrow> string \<Rightarrow> body
     \<Rightarrow> world \<Rightarrow> (exn + response) \<times> world" where
  "graphFetch E creds path query meth bdy w =
     (case getGraphAccessToken E creds w of
        (Inl e, w1) \<Rightarrow> (Inl e, w1)
      | (Inr tok, w1) \<Rightarrow>
          do_fetch E
            \<lparr>url_base = GRAPH, url_path = path, url_query = query, req_method = meth,
             req_headers = [(''Authorization'', ''Bearer '' @ tok),
                            (''Content-Type'', ''application/json'')],
             req_body = bdy\<rparr> w1)"

definition listUnreadMessages ::
  "env \<Rightarrow> OutlookCredentials \<Rightarrow> string \<Rightarrow> int \<Rightarrow> world \<Rightarrow> (exn + GraphMessage list) \<times> world" where
  "listUnreadMessages E creds mbox top_n w =
     (case graphFetch E creds [''users'', mbox, ''mailfolders'', ''inbox'', ''messages'']
             [(''$filter'', ''isRead eq false''),
              (''$orderby'', ''receivedDateTime asc''),
              (''$top'', String_int top_n),
              (''$select'', ''id,subject,body,from,receivedDateTime,isRead,conversationId'')]
             ''GET'' NoBody w of
        (Inl e, w1) \<Rightarrow> (Inl e, w1)
      | (Inr res, w1) \<Rightarrow>
          if \<not> res_ok res then
            (Inl (Error (''outlook list messages failed '' @ String_nat (res_status res)
                         @ '': '' @ res_text res)), w1)
          else (Inr (json_value res), w1))"

definition markAsRead ::
  "env \<Rightarrow> OutlookCredentials \<Rightarrow> string \<Rightarrow> string \<Rightarrow> world \<Rightarrow> (exn + unit) \<times> world" where
  "markAsRead E creds mbox messageId w =
     (case graphFetch E creds [''users'', mbox, ''messages'', messageId] []
             ''PATCH'' (JsonBody (JObj [(''isRead'', JBool True)])) w of
        (Inl e, w1) \<Rightarrow> (Inl e, w1)
      | (Inr res, w1) \<Rightarrow>
          if \<not> res_ok res then
            (Inl (Error (''outlook mark-as-read failed '' @ String_nat (res_status res)
                         @ '': '' @ res_text res)), w1)
          else (Inr (), w1))"

text \<open>The JSON bodies of the reply, draft and send-mail requests.\<close>

definition text_message :: "string \<Rightarrow> json" where
  "text_message replyText =
     JObj [(''message'',
            JObj [(''body'', JObj [(''contentType'', JStr ''Text''), (''content'', JStr replyText)])])]"

definition replyToMessage ::
  "env \<Rightarrow> OutlookCredentials \<Rightarrow> string \<Rightarrow> string \<Rightarrow> string \<Rightarrow> world \<Rightarrow> (exn + unit) \<times> world" where
  "replyToMessage E creds mbox messageId replyText w =
     (case graphFetch E creds [''users'', mbox, ''messages'', messageId, ''reply''] []
             ''POST'' (JsonBody (text_message replyText)) w of
        (Inl e, w1) \<Rightarrow> (Inl e, w1)
      | (Inr res, w1) \<Rightarrow>
          if \<not> res_ok res then
            (Inl (Error (''outlook reply failed '' @ String_nat (res_status res)
                         @ '': '' @ res_text res)), w1)
          else (Inr (), w1))"

definition createDraftReply ::
  "env \<Rightarrow> OutlookCredentials \<Rightarrow> string \<Rightarrow> string \<Rightarrow> string \<Rightarrow> world \<Rightarrow> (exn + string) \<times> world" where
  "createDraftReply E creds mbox messageId replyText w =
     (case graphFetch E creds [''users'', mbox, ''messages'', messageId, ''createReply''] []
             ''POST'' (JsonBody (text_message replyText)) w of
        (Inl e, w1) \<Rightarrow> (Inl e, w1)
      | (Inr res, w1) \<Rightarrow>
          if \<not> res_ok res then
            (Inl (Error (''outlook createReply failed '' @ String_nat (res_status res)
                         @ '': '' @ res_text res)), w1)
          else (Inr (json_id res), w1))"



section \<open>runtime.ts\<close>

definition setOutlookRuntime :: "PluginRuntime \<Rightarrow> world \<Rightarrow> world" where
  "setOutlookRuntime next w = w\<lparr>runtime := Some next\<rparr>"

definition getOutlookRuntime :: "world \<Rightarrow> exn + PluginRuntime" where
  "getOutlookRuntime w =
     (case runtime w of None \<Rightarrow> Inl (Error ''Outlook runtime not initialized'') | Some r \<Rightarrow> Inr r)"

section \<open>monitor.ts\<close>

text \<open>
  Time is a logical clock in milliseconds: \<open>clock w\<close> is what \<open>Date.now()\<close> reads, a network
  call takes the latency that comes with its answer, and \<open>abortSignal.aborted\<close> holds from the
  instant \<open>abortAt\<close> on. The optional logger \<open>log\<close> is taken as present: each of its lines is
  an event of the trace.
\<close>

definition log_event :: "event \<Rightarrow> world \<Rightarrow> world" where
  "log_event e w = w\<lparr>trace := trace w @ [e]\<rparr>"

definition aborted :: "env \<Rightarrow> world \<Rightarrow> bool" where
  "aborted E w = (case abortAt E of None \<Rightarrow> False | Some a \<Rightarrow> a \<le> clock w)"

text \<open>\<open>sleep\<close>: rejected at once when the signal has fired already; otherwise the timer and
  the abort listener race, and the one that is due first settles the promise, at its
  instant. A negative delay counts as zero, as \<open>setTimeout\<close> has it.\<close>

definition sleep :: "int \<Rightarrow> env \<Rightarrow> world \<Rightarrow> (exn + unit) \<times> world" where
  "sleep ms E w =
     (if aborted E w then (Inl (abortReason E), w)
      else
        (case abortAt E of
           None \<Rightarrow> (Inr (), w\<lparr>clock := clock w + max 0 ms\<rparr>)
         | Some a \<Rightarrow>
             if a < clock w + max 0 ms then (Inl (abortReason E), w\<lparr>clock := a\<rparr>)
             else (Inr (), w\<lparr>clock := clock w + max 0 ms\<rparr>)))"

definition blank_line :: string where
  "blank_line = [CHR 0x0A, CHR 0x0A]"

text \<open>The \<open>deliver\<close> callback of \<open>processMessage\<close>; its closure state is the \<open>replyBuffer\<close>.\<close>

definition deliver ::
  "env \<Rightarrow> OutlookCredentials \<Rightarrow> string \<Rightarrow> GraphMessage \<Rightarrow> bool \<Rightarrow> reply_payload \<Rightarrow> string
     \<Rightarrow> string list \<times> world \<Rightarrow> (exn + unit) \<times> (string list \<times> world)" where
  "deliver E creds mbox msg draft payload kind s =
     (case s of (replyBuffer, w) \<Rightarrow>
        let buf = (if truthy (payload_text payload) then replyBuffer @ [the (payload_text payload)]
                   else replyBuffer)
        in if kind = ''final'' \<and> length buf > 0 then
             (let replyText = join blank_line buf in
              if draft then
                (case createDraftReply E creds mbox (msg_id msg) replyText w of
                   (Inl e, w1) \<Rightarrow> (Inl e, ([], w1))
                 | (Inr draftId, w1) \<Rightarrow>
                     (Inr (), ([], log_event (LogInfo
                        (''[outlook] draft created id='' @ draftId @ '' for message='' @ msg_id msg
                         @ '' ('' @ String_nat (length replyText) @ '' chars)'')) w1)))
              else
                (case replyToMessage E creds mbox (msg_id msg) replyText w of
                   (Inl e, w1) \<Rightarrow> (Inl e, ([], w1))
                 | (Inr u, w1) \<Rightarrow>
                     (Inr (), ([], log_event (LogInfo
                        (''[outlook] replied to id='' @ msg_id msg
                         @ '' ('' @ String_nat (length replyText) @ '' chars)'')) w1))))
           else (Inr (), (buf, w)))"

text \<open>
  Modelled from the spec: \<open>dispatchReplyFromConfig\<close>, working through the dispatcher that
  \<open>createReplyDispatcherWithTyping\<close> builds around \<open>deliver\<close> (both of the plugin SDK, not
  among the sources). Following sections 6 and 7 of the specification, the run invokes the
  sink one call after the other, each call recorded in the trace, and completes or throws;
  time may pass in between.
\<close>

primrec run_dispatch ::
  "(reply_payload \<Rightarrow> string \<Rightarrow> string list \<times> world \<Rightarrow> (exn + unit) \<times> (string list \<times> world))
     \<Rightarrow> dispatch_run \<Rightarrow> string list \<times> world \<Rightarrow> (exn + unit) \<times> (string list \<times> world)" where
  "run_dispatch d Completed = (\<lambda>s. (Inr (), s))"
| "run_dispatch d (Thrown e) = (\<lambda>s. (Inl e, s))"
| "run_dispatch d (Elapse n r) =
     (\<lambda>s. run_dispatch d r (fst s, (snd s)\<lparr>clock := clock (snd s) + int n\<rparr>))"
| "run_dispatch d (Invoke p k cont) =
     (\<lambda>s. case d p k (fst s, log_event (SinkCall p k) (snd s)) of
             (res, s') \<Rightarrow>
               run_dispatch d (cont (case res of Inl e \<Rightarrow> Some e | Inr u \<Rightarrow> None)) s')"

text \<open>The object that \<open>processMessage\<close> hands to \<open>finalizeInboundContext\<close>, with the
  \<open>senderAddress\<close>, \<open>senderName\<close>, \<open>text\<close> and \<open>sessionKey\<close> it computes first. In
  \<open>processMessage\<close> itself, \<open>markDispatchIdle\<close> of the host is the event \<open>DispatchIdle\<close>.\<close>

definition senderAddress_of :: "GraphMessage \<Rightarrow> string" where
  "senderAddress_of msg = (case from_address msg of None \<Rightarrow> ''unknown'' | Some a \<Rightarrow> a)"

definition inbound_context :: "env \<Rightarrow> string \<Rightarrow> GraphMessage \<Rightarrow> inbound_ctx" where
  "inbound_context E mbox msg =
     (let senderAddress = senderAddress_of msg;
          senderName = or_default (from_name msg) senderAddress;
          txt = or_default (map_option trim (body_content msg)) ''(empty)'';
          sessionKey = ''outlook:'' @ toLowerCase senderAddress
      in \<lparr>Body = txt, RawBody = txt, CommandBody = txt, From = senderAddress,
          To = mbox, SessionKey = sessionKey, AccountId = ''default'',
          ChatType = ''direct'', ConversationLabel = senderName,
          SenderName = senderName, SenderId = senderAddress,
          Provider = ''outlook'', Surface = ''outlook'', MessageSid = msg_id msg,
          Timestamp = Date_getTime E (receivedDateTime msg),
          WasMentioned = True, CommandAuthorized = True,
          OriginatingChannel = ''outlook'', OriginatingTo = mbox\<rparr>)"

definition processMessage ::
  "env \<Rightarrow> OpenClawConfig \<Rightarrow> OutlookCredentials \<Rightarrow> string \<Rightarrow> GraphMessage \<Rightarrow> bool \<Rightarrow> world
     \<Rightarrow> (exn + unit) \<times> world" where
  "processMessage E cfg creds mbox msg draft w =
     (case getOutlookRuntime w of
        Inl e \<Rightarrow> (Inl e, w)
      | Inr core \<Rightarrow>
          let w0 = log_event (LogDebug (''[outlook] processing id='' @ msg_id msg
                                        @ '' from='' @ senderAddress_of msg)) w
          in case markAsRead E creds mbox (msg_id msg) w0 of
               (Inl e, w1) \<Rightarrow> (Inl e, w1)
             | (Inr u, w1) \<Rightarrow>
                 let ctxPayload = finalizeInboundContext core (inbound_context E mbox msg)
                 in case run_dispatch (deliver E creds mbox msg draft)
                           (dispatchReplyFromConfig core ctxPayload cfg)
                           ([], log_event (DispatchStart ctxPayload) w1) of
                      (Inl err, s) \<Rightarrow>
                        (Inr (), log_event DispatchIdle
                           (log_event (LogError (''[outlook] dispatch failed for id='' @ msg_id msg
                                                 @ '': '' @ String_err err)) (snd s)))
                    | (Inr u, s) \<Rightarrow> (Inr (), log_event DispatchIdle (snd s)))"

text \<open>The \<open>for\<close> loop over the unread messages of one cycle.\<close>

fun process_messages ::
  "env \<Rightarrow> OpenClawConfig \<Rightarrow> OutlookCredentials \<Rightarrow> string \<Rightarrow> bool \<Rightarrow> GraphMessage list \<Rightarrow> world
     \<Rightarrow> (exn + unit) \<times> world" where
  "process_messages E cfg creds mbox draft [] w = (Inr (), w)"
| "process_messages E cfg creds mbox draft (msg # rest) w =
     (if aborted E w then (Inr (), w)
      else
        (case processMessage E cfg creds mbox msg draft w of
           (Inl e, w1) \<Rightarrow> (Inl e, w1)
         | (Inr u, w1) \<Rightarrow> process_messages E cfg creds mbox draft rest w1))"

text \<open>The first \<open>try\<close>/\<open>catch\<close> of the loop body; the flag says that the loop is left
  (\<open>break\<close> in the \<open>catch\<close>).\<close>

definition poll_catch :: "env \<Rightarrow> exn \<Rightarrow> world \<Rightarrow> bool \<times> world" where
  "poll_catch E err w =
     (if aborted E w then (True, w)
      else (False, log_event (LogError (''[outlook] poll cycle error: '' @ String_err err)) w))"

definition poll_cycle ::
  "env \<Rightarrow> OpenClawConfig \<Rightarrow> OutlookCredentials \<Rightarrow> string \<Rightarrow> bool \<Rightarrow> world \<Rightarrow> bool \<times> world" where
  "poll_cycle E cfg creds mbox draft w =
     (case listUnreadMessages E creds mbox 20 w of
        (Inl e, w1) \<Rightarrow> poll_catch E e w1
      | (Inr messages, w1) \<Rightarrow>
          (case process_messages E cfg creds mbox draft messages w1 of
             (Inl e, w2) \<Rightarrow> poll_catch E e w2
           | (Inr u, w2) \<Rightarrow> (False, w2)))"

text \<open>The \<open>while\<close> loop, with fuel: \<open>None\<close> when the loop is still running after the given
  number of iterations, \<open>Some\<close> of the final state when it has been left.\<close>

fun monitor_loop ::
  "nat \<Rightarrow> env \<Rightarrow> OpenClawConfig \<Rightarrow> OutlookCredentials \<Rightarrow> string \<Rightarrow> int \<Rightarrow> bool \<Rightarrow> world
     \<Rightarrow> world option" where
  "monitor_loop 0 E cfg creds mbox pollMs draft w = None"
| "monitor_loop (Suc n) E cfg creds mbox pollMs draft w =
     (if aborted E w then Some w
      else
        (case poll_cycle E cfg creds mbox draft w of
           (True, w1) \<Rightarrow> Some w1
         | (False, w1) \<Rightarrow>
             (case sleep pollMs E w1 of
                (Inl e, w2) \<Rightarrow> Some w2
              | (Inr u, w2) \<Rightarrow> monitor_loop n E cfg creds mbox pollMs draft w2)))"

text \<open>The dash of two log lines, as its three UTF-8 bytes; \<open>String(b)\<close> for a boolean; and
  \<open>oc?.draftOnly !== false\<close>, the safety default of the monitor.\<close>

definition emdash :: string where
  "emdash = [CHR 0xE2, CHR 0x80, CHR 0x94]"

definition String_bool :: "bool \<Rightarrow> string" where
  "String_bool b = (if b then ''true'' else ''false'')"

definition resolve_draftOnly :: "OutlookChannelConfig option \<Rightarrow> bool" where
  "resolve_draftOnly oc = (Option.bind oc draftOnly \<noteq> Some False)"

definition monitorOutlookEmail :: "nat \<Rightarrow> env \<Rightarrow> OpenClawConfig \<Rightarrow> world \<Rightarrow> world option" where
  "monitorOutlookEmail fuel E cfg w =
     (let oc = resolveOutlookChannelConfig cfg in
      case resolveOutlookCredentials E oc of
        None \<Rightarrow>
          Some (log_event (LogError (''[outlook] credentials missing '' @ emdash
                                     @ '' need appId, appPassword, tenantId'')) w)
      | Some creds \<Rightarrow>
          let mbox = map_option trim (Option.bind oc mailbox) in
          if \<not> truthy mbox then Some (log_event (LogError ''[outlook] mailbox not configured'') w)
          else
            let pollMs = (case Option.bind oc pollIntervalMs of None \<Rightarrow> 15000 | Some p \<Rightarrow> p);
                draft = resolve_draftOnly oc;
                w0 = log_event (LogInfo (''[outlook] monitor started '' @ emdash @ '' mailbox=''
                                         @ the mbox @ '' pollMs='' @ String_int pollMs
                                         @ '' draftOnly='' @ String_bool draft)) w
            in map_option (log_event (LogInfo ''[outlook] monitor stopped''))
                 (monitor_loop fuel E cfg creds (the mbox) pollMs draft w0))"

section \<open>outbound.ts\<close>



section \<open>Observing a trace\<close>

text \<open>The requests sent to the mail provider (not those sent to the token endpoint).\<close>

definition graph_request_of :: "event \<Rightarrow> request list" where
  "graph_request_of e =
     (case e of Fetch req out \<Rightarrow> if url_base req = GRAPH then [req] else [] | _ \<Rightarrow> [])"

definition graph_requests :: "event list \<Rightarrow> request list" where
  "graph_requests evs = concat (map graph_request_of evs)"



definition is_post_to :: "string \<Rightarrow> request \<Rightarrow> bool" where
  "is_post_to seg r = (req_method r = ''POST'' \<and> url_path r \<noteq> [] \<and> last (url_path r) = seg)"

definition posts_to :: "string \<Rightarrow> event list \<Rightarrow> request list" where
  "posts_to seg evs = filter (is_post_to seg) (graph_requests evs)"

text \<open>What a run added to the trace.\<close>

definition new_events :: "world \<Rightarrow> world \<Rightarrow> event list" where
  "new_events w w' = drop (length (trace w)) (trace w')"

definition sink_call_of :: "event \<Rightarrow> (reply_payload \<times> string) list" where
  "sink_call_of e = (case e of SinkCall p k \<Rightarrow> [(p, k)] | _ \<Rightarrow> [])"

definition sink_calls :: "event list \<Rightarrow> (reply_payload \<times> string) list" where
  "sink_calls evs = concat (map sink_call_of evs)"

definition is_token_fetch :: "event \<Rightarrow> bool" where
  "is_token_fetch e =
     (case e of Fetch r out \<Rightarrow> url_base r = ''https://login.microsoftonline.com'' | _ \<Rightarrow> False)"

definition is_graph_fetch :: "string \<Rightarrow> string list \<Rightarrow> event \<Rightarrow> bool" where
  "is_graph_fetch m path e =
     (case e of Fetch r out \<Rightarrow> url_base r = GRAPH \<and> req_method r = m \<and> url_path r = path
      | _ \<Rightarrow> False)"

definition is_log :: "event \<Rightarrow> bool" where
  "is_log e = (case e of LogInfo s \<Rightarrow> True | LogError s \<Rightarrow> True | LogDebug s \<Rightarrow> True | _ \<Rightarrow> False)"

definition is_sink_call :: "event \<Rightarrow> bool" where
  "is_sink_call e = (case e of SinkCall p k \<Rightarrow> True | _ \<Rightarrow> False)"

definition is_dispatch_event :: "event \<Rightarrow> bool" where
  "is_dispatch_event e = (case e of DispatchStart c \<Rightarrow> True | SinkCall p k \<Rightarrow> True | _ \<Rightarrow> False)"

text \<open>A run from \<open>w\<close> to \<open>w'\<close> keeps the runtime, does not turn the clock back, and only
  appends events, all of them in \<open>P\<close>.\<close>

definition extends :: "(event \<Rightarrow> bool) \<Rightarrow> world \<Rightarrow> world \<Rightarrow> bool" where
  "extends P w w' =
     (runtime w' = runtime w \<and> clock w \<le> clock w'
      \<and> (\<exists>evs. trace w' = trace w @ evs \<and> list_all P evs))"

text \<open>The completed mark-as-read call for a message: the \<open>PATCH\<close> of \<open>isRead\<close> on it,
  answered with a 2xx status.\<close>

definition is_markRead_ok :: "string \<Rightarrow> string \<Rightarrow> event \<Rightarrow> bool" where
  "is_markRead_ok mbox mid e =
     (case e of
        Fetch r out \<Rightarrow>
          url_base r = GRAPH \<and> req_method r = ''PATCH''
          \<and> url_path r = [''users'', mbox, ''messages'', mid]
          \<and> req_body r = JsonBody (JObj [(''isRead'', JBool True)])
          \<and> (case out of Inl e \<Rightarrow> False | Inr res \<Rightarrow> res_ok res)
      | _ \<Rightarrow> False)"

text \<open>The order-of-calls check: scanning a trace, every event of the dispatch (its start and
  each call of the sink) comes after a completed mark-as-read call.\<close>

fun markRead_first :: "string \<Rightarrow> string \<Rightarrow> bool \<Rightarrow> event list \<Rightarrow> bool" where
  "markRead_first mbox mid marked [] = True"
| "markRead_first mbox mid marked (e # es) =
     (if is_dispatch_event e then marked \<and> markRead_first mbox mid marked es
      else markRead_first mbox mid (marked \<or> is_markRead_ok mbox mid e) es)"

text \<open>A dispatch that invokes the sink with the given payloads and kinds, one after the
  other, whatever the sink returns, and then ends as given.\<close>

fun chunk_script :: "(reply_payload \<times> string) list \<Rightarrow> dispatch_run \<Rightarrow> dispatch_run" where
  "chunk_script [] r = r"
| "chunk_script (c # cs) r = Invoke (fst c) (snd c) (\<lambda>x. chunk_script cs r)"

text \<open>The non-empty texts of a sequence of sink calls, in arrival order.\<close>

definition texts_of :: "(reply_payload \<times> string) list \<Rightarrow> string list" where
  "texts_of cs = map (\<lambda>c. the (payload_text (fst c))) (filter (\<lambda>c. truthy (payload_text (fst c))) cs)"


text \<open>Non-decreasing receive time.\<close>

definition received_ascending :: "env \<Rightarrow> GraphMessage list \<Rightarrow> bool" where
  "received_ascending E msgs =
     sorted (map (\<lambda>m. Date_getTime E (receivedDateTime m)) msgs)"


text \<open>Which events a sink call and a whole dispatch for one message may add.\<close>

definition flush_path :: "string \<Rightarrow> string \<Rightarrow> bool \<Rightarrow> string list" where
  "flush_path mbox mid draft =
     [''users'', mbox, ''messages'', mid, if draft then ''createReply'' else ''reply'']"

definition deliver_event :: "string \<Rightarrow> string \<Rightarrow> bool \<Rightarrow> event \<Rightarrow> bool" where
  "deliver_event mbox mid draft e =
     (is_token_fetch e \<or> is_graph_fetch ''POST'' (flush_path mbox mid draft) e \<or> is_log e)"

definition dispatch_event :: "string \<Rightarrow> string \<Rightarrow> bool \<Rightarrow> event \<Rightarrow> bool" where
  "dispatch_event mbox mid draft e = (deliver_event mbox mid draft e \<or> is_sink_call e)"

text \<open>The buffer after the \<open>push\<close> of a sink call.\<close>

definition pushed :: "reply_payload \<Rightarrow> string list \<Rightarrow> string list" where
  "pushed p buf = (if truthy (payload_text p) then buf @ [the (payload_text p)] else buf)"

text \<open>Which events the processing of one message may add, and which events a monitor running
  with a given \<open>draftOnly\<close> may add: no request to the other reply endpoint.\<close>

definition message_event ::
  "env \<Rightarrow> PluginRuntime \<Rightarrow> string \<Rightarrow> GraphMessage \<Rightarrow> bool \<Rightarrow> event \<Rightarrow> bool" where
  "message_event E core mbox msg draft e =
     (dispatch_event mbox (msg_id msg) draft e
      \<or> is_graph_fetch ''PATCH'' [''users'', mbox, ''messages'', msg_id msg] e
      \<or> e = DispatchIdle
      \<or> e = DispatchStart (finalizeInboundContext core (inbound_context E mbox msg)))"

definition monitor_event :: "bool \<Rightarrow> event \<Rightarrow> bool" where
  "monitor_event draft e =
     (case e of
        Fetch r out \<Rightarrow>
          url_base r = GRAPH \<longrightarrow> \<not> is_post_to (if draft then ''reply'' else ''createReply'') r
      | _ \<Rightarrow> True)"

text \<open>The request that \<open>graphFetch\<close> issues once it holds the token.\<close>

definition graph_request ::
  "string \<Rightarrow> string list \<Rightarrow> (string \<times> string) list \<Rightarrow> string \<Rightarrow> body \<Rightarrow> request" where
  "graph_request tok path query meth bdy =
     \<lparr>url_base = GRAPH, url_path = path, url_query = query, req_method = meth,
      req_headers = [(''Authorization'', ''Bearer '' @ tok), (''Content-Type'', ''application/json'')],
      req_body = bdy\<rparr>"



text \<open>The first log line of \<open>processMessage\<close>.\<close>

definition processing_line :: "GraphMessage \<Rightarrow> event" where
  "processing_line msg =
     LogDebug (''[outlook] processing id='' @ msg_id msg @ '' from='' @ senderAddress_of msg)"

text \<open>The dispatch of \<open>processMessage\<close> for a message marked read in \<open>w1\<close>: its outcome and
  the buffer and world it leaves.\<close>

definition dispatch_of ::
  "env \<Rightarrow> OpenClawConfig \<Rightarrow> OutlookCredentials \<Rightarrow> string \<Rightarrow> GraphMessage \<Rightarrow> bool \<Rightarrow> PluginRuntime
     \<Rightarrow> world \<Rightarrow> (exn + unit) \<times> (string list \<times> world)" where
  "dispatch_of E cfg creds mbox msg draft core w1 =
     run_dispatch (deliver E creds mbox msg draft)
       (dispatchReplyFromConfig core (finalizeInboundContext core (inbound_context E mbox msg)) cfg)
       ([], log_event (DispatchStart (finalizeInboundContext core (inbound_context E mbox msg))) w1)"

section \<open>Fixtures\<close>

text \<open>Concrete surroundings, configurations, messages and agents, on which the theorems
  below are tried.\<close>

definition ok_response :: response where
  "ok_response =
     \<lparr>res_ok = True, res_status = 200, res_text = [], json_access_token = ''tok-new'',
      json_expires_in = 3600, json_value = [], json_id = ''draft-1''\<rparr>"

definition stub_env :: "GraphMessage list \<Rightarrow> int option \<Rightarrow> env" where
  "stub_env msgs ab =
     \<lparr>abortAt = ab, abortReason = Error ''aborted'',
      fetch = (\<lambda>h req. \<lparr>latency = 0, outcome = Inr (ok_response\<lparr>json_value := msgs\<rparr>)\<rparr>),
      process_env = Map.empty,
      Date_getTime = (\<lambda>s. 0)\<rparr>"

definition demo_creds :: OutlookCredentials where
  "demo_creds = \<lparr>appId = ''app-id'', appSecret = ''app-secret'', tenantId = ''tenant-id''\<rparr>"

definition demo_world :: "int \<Rightarrow> CachedToken option \<Rightarrow> PluginRuntime option \<Rightarrow> world" where
  "demo_world now tc rt = \<lparr>clock = now, tokenCache = tc, runtime = rt, trace = []\<rparr>"



definition demo_channel :: "bool option \<Rightarrow> OutlookChannelConfig" where
  "demo_channel d =
     \<lparr>enabled = None, oc_appId = Some ''app-id'', oc_appPassword = Some ''app-secret'',
      oc_tenantId = Some ''tenant-id'', mailbox = Some ''helpdesk@example.com'',
      pollIntervalMs = None, draftOnly = d\<rparr>"

definition demo_cfg :: "bool option \<Rightarrow> OpenClawConfig" where
  "demo_cfg d = \<lparr>channels = Some [''outlook'' \<mapsto> demo_channel d]\<rparr>"

definition demo_msg :: "string \<Rightarrow> string \<Rightarrow> string \<Rightarrow> GraphMessage" where
  "demo_msg mid addr received =
     \<lparr>msg_id = mid, subject = ''hello'', body_content = Some ''hi'', from_address = Some addr,
      from_name = Some ''Alice'', receivedDateTime = received, isRead = False,
      conversationId = None\<rparr>"

definition demo_runtime :: "dispatch_run \<Rightarrow> PluginRuntime" where
  "demo_runtime run =
     \<lparr>finalizeInboundContext = (\<lambda>c. c), dispatchReplyFromConfig = (\<lambda>c cfg. run)\<rparr>"

definition chunk :: "string \<Rightarrow> reply_payload" where
  "chunk s = \<lparr>payload_text = Some s\<rparr>"

definition fresh_token :: "CachedToken option" where
  "fresh_token = Some \<lparr>token = ''tok-old'', expiresAt = 3600000\<rparr>"

text \<open>A monitor run: one unread message, an agent that answers with one block and one final
  chunk, and a stop request 5 ms after the start.\<close>

definition demo_monitor :: "bool option \<Rightarrow> world option" where
  "demo_monitor d =
     monitorOutlookEmail 1
       (stub_env [demo_msg ''m1'' ''a@b.com'' ''2024-01-01T00:00:00Z''] (Some 5))
       (demo_cfg d)
       (demo_world 0 fresh_token
          (Some (demo_runtime (chunk_script [(chunk ''one'', ''block''), (chunk ''two'', ''final'')] Completed))))"

definition two_chunks :: dispatch_run where
  "two_chunks = chunk_script [(chunk ''one'', ''block''), (chunk ''two'', ''final'')] Completed"

definition silent_run :: dispatch_run where
  "silent_run = chunk_script [(\<lparr>payload_text = None\<rparr>, ''block''), (chunk [], ''final'')] Completed"

definition demo_process :: "dispatch_run \<Rightarrow> (exn + unit) \<times> world" where
  "demo_process run =
     processMessage (stub_env [] None) (demo_cfg None) demo_creds ''helpdesk@example.com''
       (demo_msg ''m1'' ''Alice@B.com'' ''2024-01-01T00:00:00Z'') True
       (demo_world 0 fresh_token (Some (demo_runtime run)))"

text \<open>An agent that throws on the message \<open>m1\<close> and answers every other message.\<close>

definition moody_runtime :: PluginRuntime where
  "moody_runtime =
     \<lparr>finalizeInboundContext = (\<lambda>c. c),
      dispatchReplyFromConfig =
        (\<lambda>c cfg. if MessageSid c = ''m1'' then Elapse 3 (Thrown (Error ''boom'')) else two_chunks)\<rparr>"

definition two_messages :: "(exn + unit) \<times> world" where
  "two_messages =
     process_messages (stub_env [] None) (demo_cfg None) demo_creds ''helpdesk@example.com'' True
       [demo_msg ''m1'' ''a@b.com'' ''2024-01-01T00:00:00Z'',
        demo_msg ''m2'' ''a@b.com'' ''2024-01-02T00:00:00Z'']
       (demo_world 0 fresh_token (Some moody_runtime))"

text \<open>A transport that answers the listing with two messages, the later one first, and a
  \<open>Date\<close> that knows their two time stamps.\<close>

definition demo_getTime :: "string \<Rightarrow> int" where
  "demo_getTime s =
     (if s = ''2024-01-01T00:00:00Z'' then 1704067200000
      else if s = ''2024-01-02T00:00:00Z'' then 1704153600000 else 0)"

definition late_msg :: GraphMessage where
  "late_msg = demo_msg ''m2'' ''a@b.com'' ''2024-01-02T00:00:00Z''"

definition early_msg :: GraphMessage where
  "early_msg = demo_msg ''m1'' ''a@b.com'' ''2024-01-01T00:00:00Z''"

definition unordered_env :: env where
  "unordered_env = (stub_env [late_msg, early_msg] None)\<lparr>Date_getTime := demo_getTime\<rparr>"


section \<open>Runs only append to the trace\<close>

lemma extends_refl: "extends P w w"
  by (simp add: extends_def)

lemma extends_trans: "extends P w w1 \<Longrightarrow> extends P w1 w2 \<Longrightarrow> extends P w w2"
  by (auto simp: extends_def)

lemma extends_mono: "extends P w w' \<Longrightarrow> (\<And>e. P e \<Longrightarrow> Q e) \<Longrightarrow> extends Q w w'"
  by (auto simp: extends_def list_all_iff)

lemma extends_log: "P e \<Longrightarrow> extends P w (log_event e w)"
  by (simp add: extends_def log_event_def)

lemma extends_clock: "clock w \<le> c \<Longrightarrow> extends P w (w\<lparr>clock := c\<rparr>)"
  by (simp add: extends_def)

lemma extends_do_fetch: "P (Fetch req (fst (do_fetch E req w))) \<Longrightarrow> extends P w (snd (do_fetch E req w))"
  by (simp add: do_fetch_def Let_def extends_def)


lemma getGraphAccessToken_stale:
  "\<not> (case tokenCache w of None \<Rightarrow> False | Some c \<Rightarrow> expiresAt c > clock w + 60000) \<Longrightarrow>
   getGraphAccessToken E creds w =
      (case do_fetch E (token_request creds) w of
           (Inl e, w1) \<Rightarrow> (Inl e, w1)
         | (Inr res, w1) \<Rightarrow>
             if \<not> res_ok res then
               (Inl (Error (''outlook token request failed '' @ String_nat (res_status res)
                            @ '': '' @ res_text res)), w1)
             else
               (Inr (json_access_token res),
                w1\<lparr>tokenCache := Some \<lparr>token = json_access_token res,
                                        expiresAt = clock w + json_expires_in res * 1000\<rparr>\<rparr>))"
  by (simp add: getGraphAccessToken_def)

lemma is_token_fetch_token_request: "is_token_fetch (Fetch (token_request creds) out)"
  by (simp add: is_token_fetch_def token_request_def)

lemma extends_token: "extends is_token_fetch w (snd (getGraphAccessToken E creds w))"
proof (cases "case tokenCache w of None \<Rightarrow> False | Some c \<Rightarrow> expiresAt c > clock w + 60000")
  case True
  then have "snd (getGraphAccessToken E creds w) = w"
    by (auto simp: getGraphAccessToken_def split: option.splits)
  then show ?thesis by (simp add: extends_refl)
next
  case False
  obtain r1 w1 where f: "do_fetch E (token_request creds) w = (r1, w1)"
    by (cases "do_fetch E (token_request creds) w")
  have "extends is_token_fetch w (snd (do_fetch E (token_request creds) w))"
    by (rule extends_do_fetch) (rule is_token_fetch_token_request)
  with f have e1: "extends is_token_fetch w w1" by simp
  have "extends is_token_fetch w1 (snd (getGraphAccessToken E creds w))"
  proof (cases r1)
    case (Inl e)
    with False f show ?thesis by (simp add: getGraphAccessToken_stale extends_refl)
  next
    case (Inr res)
    with False f show ?thesis
      by (cases "res_ok res") (simp_all add: getGraphAccessToken_stale extends_def)
  qed
  with e1 show ?thesis by (rule extends_trans)
qed

lemma extends_graphFetch:
  "extends (\<lambda>e. is_token_fetch e \<or> is_graph_fetch m path e) w
     (snd (graphFetch E creds path q m b w))"
proof -
  obtain t w1 where g: "getGraphAccessToken E creds w = (t, w1)"
    by (cases "getGraphAccessToken E creds w")
  have "extends is_token_fetch w (snd (getGraphAccessToken E creds w))" by (rule extends_token)
  with g have e1: "extends (\<lambda>e. is_token_fetch e \<or> is_graph_fetch m path e) w w1"
    by (auto intro: extends_mono)
  show ?thesis
  proof (cases t)
    case (Inl e)
    with g e1 show ?thesis by (simp add: graphFetch_def)
  next
    case (Inr tok)
    have "extends (\<lambda>e. is_token_fetch e \<or> is_graph_fetch m path e) w1
            (snd (do_fetch E \<lparr>url_base = GRAPH, url_path = path, url_query = q, req_method = m,
             req_headers = [(''Authorization'', ''Bearer '' @ tok),
                            (''Content-Type'', ''application/json'')],
             req_body = b\<rparr> w1))"
      by (rule extends_do_fetch) (simp add: is_graph_fetch_def)
    with g Inr have "extends (\<lambda>e. is_token_fetch e \<or> is_graph_fetch m path e) w1
       (snd (graphFetch E creds path q m b w))"
      by (simp add: graphFetch_def)
    with e1 show ?thesis by (rule extends_trans)
  qed
qed

lemma markAsRead_snd:
  "snd (markAsRead E creds mbox mid w)
     = snd (graphFetch E creds [''users'', mbox, ''messages'', mid] []
             ''PATCH'' (JsonBody (JObj [(''isRead'', JBool True)])) w)"
  by (simp add: markAsRead_def split: prod.split sum.split)

lemma listUnreadMessages_snd:
  "snd (listUnreadMessages E creds mbox n w)
     = snd (graphFetch E creds [''users'', mbox, ''mailfolders'', ''inbox'', ''messages'']
             [(''$filter'', ''isRead eq false''),
              (''$orderby'', ''receivedDateTime asc''),
              (''$top'', String_int n),
              (''$select'', ''id,subject,body,from,receivedDateTime,isRead,conversationId'')]
             ''GET'' NoBody w)"
  by (simp add: listUnreadMessages_def split: prod.split sum.split)

lemma replyToMessage_snd:
  "snd (replyToMessage E creds mbox mid t w)
     = snd (graphFetch E creds [''users'', mbox, ''messages'', mid, ''reply''] []
             ''POST'' (JsonBody (text_message t)) w)"
  by (simp add: replyToMessage_def split: prod.split sum.split)

lemma createDraftReply_snd:
  "snd (createDraftReply E creds mbox mid t w)
     = snd (graphFetch E creds [''users'', mbox, ''messages'', mid, ''createReply''] []
             ''POST'' (JsonBody (text_message t)) w)"
  by (simp add: createDraftReply_def split: prod.split sum.split)

lemma extends_markAsRead:
  "extends (\<lambda>e. is_token_fetch e \<or> is_graph_fetch ''PATCH'' [''users'', mbox, ''messages'', mid] e) w
     (snd (markAsRead E creds mbox mid w))"
  unfolding markAsRead_snd by (rule extends_graphFetch)

lemma extends_listUnread:
  "extends (\<lambda>e. is_token_fetch e
              \<or> is_graph_fetch ''GET'' [''users'', mbox, ''mailfolders'', ''inbox'', ''messages''] e) w
     (snd (listUnreadMessages E creds mbox n w))"
  unfolding listUnreadMessages_snd by (rule extends_graphFetch)

lemma extends_reply:
  "extends (\<lambda>e. is_token_fetch e
              \<or> is_graph_fetch ''POST'' [''users'', mbox, ''messages'', mid, ''reply''] e) w
     (snd (replyToMessage E creds mbox mid t w))"
  unfolding replyToMessage_snd by (rule extends_graphFetch)

lemma extends_createDraftReply:
  "extends (\<lambda>e. is_token_fetch e
              \<or> is_graph_fetch ''POST'' [''users'', mbox, ''messages'', mid, ''createReply''] e) w
     (snd (createDraftReply E creds mbox mid t w))"
  unfolding createDraftReply_snd by (rule extends_graphFetch)




section \<open>The token cache\<close>



section \<open>The events of a sink call, a dispatch, a message and a monitor run\<close>

lemma deliver_no_flush:
  "\<not> (kind = ''final'' \<and> pushed p buf \<noteq> []) \<Longrightarrow>
   deliver E creds mbox msg d p kind (buf, w) = (Inr (), (pushed p buf, w))"
  by (auto simp add: deliver_def Let_def pushed_def [symmetric])

lemma deliver_flush_draft:
  "pushed p buf \<noteq> [] \<Longrightarrow>
   deliver E creds mbox msg True p ''final'' (buf, w) =
     (case createDraftReply E creds mbox (msg_id msg) (join blank_line (pushed p buf)) w of
        (Inl e, w1) \<Rightarrow> (Inl e, ([], w1))
      | (Inr draftId, w1) \<Rightarrow>
          (Inr (), ([], log_event (LogInfo
             (''[outlook] draft created id='' @ draftId @ '' for message='' @ msg_id msg
              @ '' ('' @ String_nat (length (join blank_line (pushed p buf))) @ '' chars)'')) w1)))"
  by (simp add: deliver_def Let_def pushed_def [symmetric])

lemma deliver_flush_send:
  "pushed p buf \<noteq> [] \<Longrightarrow>
   deliver E creds mbox msg False p ''final'' (buf, w) =
     (case replyToMessage E creds mbox (msg_id msg) (join blank_line (pushed p buf)) w of
        (Inl e, w1) \<Rightarrow> (Inl e, ([], w1))
      | (Inr u, w1) \<Rightarrow>
          (Inr (), ([], log_event (LogInfo
             (''[outlook] replied to id='' @ msg_id msg
              @ '' ('' @ String_nat (length (join blank_line (pushed p buf))) @ '' chars)'')) w1)))"
  by (simp add: deliver_def Let_def pushed_def [symmetric])

lemma extends_deliver:
  "extends (deliver_event mbox (msg_id msg) d) w
     (snd (snd (deliver E creds mbox msg d p kind (buf, w))))"
proof (cases "kind = ''final'' \<and> pushed p buf \<noteq> []")
  case False
  then show ?thesis by (simp add: deliver_no_flush extends_refl)
next
  case True
  show ?thesis
  proof (cases d)
    case True
    obtain r w1 where c: "createDraftReply E creds mbox (msg_id msg) (join blank_line (pushed p buf)) w = (r, w1)"
      by (cases "createDraftReply E creds mbox (msg_id msg) (join blank_line (pushed p buf)) w")
    have "extends (\<lambda>e. is_token_fetch e
              \<or> is_graph_fetch ''POST'' [''users'', mbox, ''messages'', msg_id msg, ''createReply''] e) w
       (snd (createDraftReply E creds mbox (msg_id msg) (join blank_line (pushed p buf)) w))"
      by (rule extends_createDraftReply)
    with c have e1: "extends (deliver_event mbox (msg_id msg) True) w w1"
      by (auto intro: extends_mono simp: deliver_event_def flush_path_def)
    have "extends (deliver_event mbox (msg_id msg) True) w1
            (snd (snd (deliver E creds mbox msg True p ''final'' (buf, w))))"
      using \<open>kind = ''final'' \<and> pushed p buf \<noteq> []\<close> c
      by (cases r) (simp_all add: deliver_flush_draft extends_refl extends_log deliver_event_def is_log_def)
    with e1 True \<open>kind = ''final'' \<and> pushed p buf \<noteq> []\<close> show ?thesis
      by (auto intro: extends_trans)
  next
    case False
    obtain r w1 where c: "replyToMessage E creds mbox (msg_id msg) (join blank_line (pushed p buf)) w = (r, w1)"
      by (cases "replyToMessage E creds mbox (msg_id msg) (join blank_line (pushed p buf)) w")
    have "extends (\<lambda>e. is_token_fetch e
              \<or> is_graph_fetch ''POST'' [''users'', mbox, ''messages'', msg_id msg, ''reply''] e) w
       (snd (replyToMessage E creds mbox (msg_id msg) (join blank_line (pushed p buf)) w))"
      by (rule extends_reply)
    with c have e1: "extends (deliver_event mbox (msg_id msg) False) w w1"
      by (auto intro: extends_mono simp: deliver_event_def flush_path_def)
    have "extends (deliver_event mbox (msg_id msg) False) w1
            (snd (snd (deliver E creds mbox msg False p ''final'' (buf, w))))"
      using \<open>kind = ''final'' \<and> pushed p buf \<noteq> []\<close> c
      by (cases r) (simp_all add: deliver_flush_send extends_refl extends_log deliver_event_def is_log_def)
    with e1 False \<open>kind = ''final'' \<and> pushed p buf \<noteq> []\<close> show ?thesis
      by (auto intro: extends_trans)
  qed
qed

lemma extends_run_dispatch:
  "extends (dispatch_event mbox (msg_id msg) d) (snd s)
     (snd (snd (run_dispatch (deliver E creds mbox msg d) t s)))"
proof (induction t arbitrary: s)
  case Completed
  show ?case by (simp add: extends_refl)
next
  case (Thrown e)
  show ?case by (simp add: extends_refl)
next
  case (Elapse n t)
  have "extends (dispatch_event mbox (msg_id msg) d) (snd s) ((snd s)\<lparr>clock := clock (snd s) + int n\<rparr>)"
    by (rule extends_clock) simp
  moreover have "extends (dispatch_event mbox (msg_id msg) d) ((snd s)\<lparr>clock := clock (snd s) + int n\<rparr>)
      (snd (snd (run_dispatch (deliver E creds mbox msg d) t (fst s, (snd s)\<lparr>clock := clock (snd s) + int n\<rparr>))))"
    using Elapse.IH [of "(fst s, (snd s)\<lparr>clock := clock (snd s) + int n\<rparr>)"] by simp
  ultimately show ?case by (auto intro: extends_trans)
next
  case (Invoke p k cont)
  let ?w0 = "log_event (SinkCall p k) (snd s)"
  obtain res s' where dl: "deliver E creds mbox msg d p k (fst s, ?w0) = (res, s')"
    by (cases "deliver E creds mbox msg d p k (fst s, ?w0)")
  let ?x = "case res of Inl e \<Rightarrow> Some e | Inr u \<Rightarrow> None"
  have e0: "extends (dispatch_event mbox (msg_id msg) d) (snd s) ?w0"
    by (rule extends_log) (simp add: dispatch_event_def is_sink_call_def)
  have "extends (deliver_event mbox (msg_id msg) d) ?w0
          (snd (snd (deliver E creds mbox msg d p k (fst s, ?w0))))"
    by (rule extends_deliver)
  with dl have e1: "extends (dispatch_event mbox (msg_id msg) d) ?w0 (snd s')"
    by (auto intro: extends_mono simp: dispatch_event_def)
  have e2: "extends (dispatch_event mbox (msg_id msg) d) (snd s')
          (snd (snd (run_dispatch (deliver E creds mbox msg d) (cont ?x) s')))"
    by (rule Invoke.IH) simp
  have "run_dispatch (deliver E creds mbox msg d) (Invoke p k cont) s
          = run_dispatch (deliver E creds mbox msg d) (cont ?x) s'"
    using dl by simp
  with e0 e1 e2 show ?case by (auto intro: extends_trans)
qed

lemma processMessage_no_runtime:
  "runtime w = None \<Longrightarrow>
   processMessage E cfg creds mbox msg d w = (Inl (Error ''Outlook runtime not initialized''), w)"
  by (simp add: processMessage_def getOutlookRuntime_def)

lemma processMessage_runtime:
  "runtime w = Some core \<Longrightarrow>
   processMessage E cfg creds mbox msg d w =
     (case markAsRead E creds mbox (msg_id msg)
             (log_event (LogDebug (''[outlook] processing id='' @ msg_id msg
                                   @ '' from='' @ senderAddress_of msg)) w) of
        (Inl e, w1) \<Rightarrow> (Inl e, w1)
      | (Inr u, w1) \<Rightarrow>
          (case run_dispatch (deliver E creds mbox msg d)
                  (dispatchReplyFromConfig core
                     (finalizeInboundContext core (inbound_context E mbox msg)) cfg)
                  ([], log_event (DispatchStart
                     (finalizeInboundContext core (inbound_context E mbox msg))) w1) of
             (Inl err, s) \<Rightarrow>
               (Inr (), log_event DispatchIdle
                  (log_event (LogError (''[outlook] dispatch failed for id='' @ msg_id msg
                                        @ '': '' @ String_err err)) (snd s)))
           | (Inr u, s) \<Rightarrow> (Inr (), log_event DispatchIdle (snd s))))"
  unfolding processMessage_def getOutlookRuntime_def Let_def by simp

lemma extends_processMessage:
  assumes rt: "runtime w = Some core"
  shows "extends (message_event E core mbox msg d) w (snd (processMessage E cfg creds mbox msg d w))"
proof -
  let ?P = "message_event E core mbox msg d"
  let ?w0 = "log_event (LogDebug (''[outlook] processing id='' @ msg_id msg
                                   @ '' from='' @ senderAddress_of msg)) w"
  let ?ctx = "finalizeInboundContext core (inbound_context E mbox msg)"
  obtain r1 w1 where m: "markAsRead E creds mbox (msg_id msg) ?w0 = (r1, w1)"
    by (cases "markAsRead E creds mbox (msg_id msg) ?w0")
  have e0: "extends ?P w ?w0"
    by (rule extends_log) (simp add: message_event_def dispatch_event_def deliver_event_def is_log_def)
  have "extends (\<lambda>e. is_token_fetch e
            \<or> is_graph_fetch ''PATCH'' [''users'', mbox, ''messages'', msg_id msg] e) ?w0
          (snd (markAsRead E creds mbox (msg_id msg) ?w0))"
    by (rule extends_markAsRead)
  with m have e1: "extends ?P ?w0 w1"
    by (auto intro: extends_mono simp: message_event_def dispatch_event_def deliver_event_def)
  from e0 e1 have e01: "extends ?P w w1" by (rule extends_trans)
  show ?thesis
  proof (cases r1)
    case (Inl e)
    with m rt e01 show ?thesis by (simp add: processMessage_runtime)
  next
    case (Inr u)
    let ?w2 = "log_event (DispatchStart ?ctx) w1"
    obtain r2 s2 where rd: "run_dispatch (deliver E creds mbox msg d)
        (dispatchReplyFromConfig core ?ctx cfg) ([], ?w2) = (r2, s2)"
      by (cases "run_dispatch (deliver E creds mbox msg d)
        (dispatchReplyFromConfig core ?ctx cfg) ([], ?w2)")
    have e2: "extends ?P w1 ?w2"
      by (rule extends_log) (simp add: message_event_def)
    have "extends (dispatch_event mbox (msg_id msg) d) ?w2
       (snd (snd (run_dispatch (deliver E creds mbox msg d)
          (dispatchReplyFromConfig core ?ctx cfg) ([], ?w2))))"
      using extends_run_dispatch [where s = "([], ?w2)"] by simp
    with rd have e3: "extends ?P ?w2 (snd s2)"
      by (auto intro: extends_mono simp: message_event_def)
    have e4: "extends ?P (snd s2) (snd (processMessage E cfg creds mbox msg d w))"
    proof (cases r2)
      case (Inl err)
      have "extends ?P (snd s2) (log_event (LogError (''[outlook] dispatch failed for id='' @ msg_id msg
                                        @ '': '' @ String_err err)) (snd s2))"
        by (rule extends_log) (simp add: message_event_def dispatch_event_def deliver_event_def is_log_def)
      moreover have "extends ?P (log_event (LogError (''[outlook] dispatch failed for id='' @ msg_id msg
                                        @ '': '' @ String_err err)) (snd s2))
          (log_event DispatchIdle (log_event (LogError (''[outlook] dispatch failed for id='' @ msg_id msg
                                        @ '': '' @ String_err err)) (snd s2)))"
        by (rule extends_log) (simp add: message_event_def)
      ultimately show ?thesis using m rt Inr Inl rd
        by (simp add: processMessage_runtime) (rule extends_trans)
    next
      case (Inr u2)
      have "extends ?P (snd s2) (log_event DispatchIdle (snd s2))"
        by (rule extends_log) (simp add: message_event_def)
      then show ?thesis using m rt \<open>r1 = Inr u\<close> Inr rd
        by (simp add: processMessage_runtime)
    qed
    from e01 e2 e3 e4 show ?thesis by (blast intro: extends_trans)
  qed
qed

lemma message_event_monitor: "message_event E core mbox msg d e \<Longrightarrow> monitor_event d e"
  by (cases e)
     (auto simp: message_event_def dispatch_event_def deliver_event_def monitor_event_def
        is_token_fetch_def is_graph_fetch_def is_log_def is_sink_call_def is_post_to_def
        flush_path_def GRAPH_def)

lemma extends_processMessage_monitor:
  "extends (monitor_event d) w (snd (processMessage E cfg creds mbox msg d w))"
proof (cases "runtime w")
  case None
  then show ?thesis by (simp add: processMessage_no_runtime extends_refl)
next
  case (Some core)
  then have "extends (message_event E core mbox msg d) w (snd (processMessage E cfg creds mbox msg d w))"
    by (rule extends_processMessage)
  then show ?thesis by (rule extends_mono) (rule message_event_monitor)
qed

lemma extends_process_messages:
  "extends (monitor_event d) w (snd (process_messages E cfg creds mbox d msgs w))"
proof (induction msgs arbitrary: w)
  case Nil
  show ?case by (simp add: extends_refl)
next
  case (Cons msg rest)
  show ?case
  proof (cases "aborted E w")
    case True
    then show ?thesis by (simp add: extends_refl)
  next
    case False
    obtain r w1 where pm: "processMessage E cfg creds mbox msg d w = (r, w1)"
      by (cases "processMessage E cfg creds mbox msg d w")
    have "extends (monitor_event d) w (snd (processMessage E cfg creds mbox msg d w))"
      by (rule extends_processMessage_monitor)
    with pm have e1: "extends (monitor_event d) w w1" by simp
    show ?thesis
    proof (cases r)
      case (Inl e)
      with False pm e1 show ?thesis by simp
    next
      case (Inr u)
      with False pm have "snd (process_messages E cfg creds mbox d (msg # rest) w)
          = snd (process_messages E cfg creds mbox d rest w1)" by simp
      with e1 Cons.IH [of w1] show ?thesis by (auto intro: extends_trans)
    qed
  qed
qed

lemma graph_get_monitor:
  "is_token_fetch e \<or> is_graph_fetch ''GET'' path e \<Longrightarrow> monitor_event d e"
  by (cases e) (auto simp: monitor_event_def is_token_fetch_def is_graph_fetch_def is_post_to_def GRAPH_def)

lemma extends_poll_catch: "extends (monitor_event d) w (snd (poll_catch E err w))"
  by (simp add: poll_catch_def extends_refl extends_log monitor_event_def)

lemma extends_poll_cycle:
  "extends (monitor_event d) w (snd (poll_cycle E cfg creds mbox d w))"
proof -
  obtain r w1 where l: "listUnreadMessages E creds mbox 20 w = (r, w1)"
    by (cases "listUnreadMessages E creds mbox 20 w")
  have "extends (\<lambda>e. is_token_fetch e
              \<or> is_graph_fetch ''GET'' [''users'', mbox, ''mailfolders'', ''inbox'', ''messages''] e) w
     (snd (listUnreadMessages E creds mbox 20 w))"
    by (rule extends_listUnread)
  with l have e1: "extends (monitor_event d) w w1"
    by (auto intro: extends_mono graph_get_monitor)
  show ?thesis
  proof (cases r)
    case (Inl e)
    with l have "snd (poll_cycle E cfg creds mbox d w) = snd (poll_catch E e w1)"
      by (simp add: poll_cycle_def)
    with e1 extends_poll_catch [of d w1 E e] show ?thesis by (auto intro: extends_trans)
  next
    case (Inr messages)
    obtain r2 w2 where p: "process_messages E cfg creds mbox d messages w1 = (r2, w2)"
      by (cases "process_messages E cfg creds mbox d messages w1")
    have "extends (monitor_event d) w1 (snd (process_messages E cfg creds mbox d messages w1))"
      by (rule extends_process_messages)
    with p have e2: "extends (monitor_event d) w1 w2" by simp
    have e3: "extends (monitor_event d) w2 (snd (poll_cycle E cfg creds mbox d w))"
    proof (cases r2)
      case (Inl e)
      with l Inr p have "snd (poll_cycle E cfg creds mbox d w) = snd (poll_catch E e w2)"
        by (simp add: poll_cycle_def)
      with extends_poll_catch [of d w2 E e] show ?thesis by simp
    next
      case (Inr u)
      with l \<open>r = Inr messages\<close> p show ?thesis by (simp add: poll_cycle_def extends_refl)
    qed
    from e1 e2 e3 show ?thesis by (blast intro: extends_trans)
  qed
qed

lemma extends_sleep: "extends P w (snd (sleep ms E w))"
  by (auto simp: sleep_def aborted_def extends_refl intro!: extends_clock split: option.split)

lemma extends_monitor_loop:
  "monitor_loop n E cfg creds mbox pollMs d w = Some w' \<Longrightarrow> extends (monitor_event d) w w'"
proof (induction n arbitrary: w)
  case 0
  then show ?case by simp
next
  case (Suc n)
  show ?case
  proof (cases "aborted E w")
    case True
    with Suc.prems show ?thesis by (simp add: extends_refl)
  next
    case False
    obtain b w1 where pc: "poll_cycle E cfg creds mbox d w = (b, w1)"
      by (cases "poll_cycle E cfg creds mbox d w")
    have "extends (monitor_event d) w (snd (poll_cycle E cfg creds mbox d w))"
      by (rule extends_poll_cycle)
    with pc have e1: "extends (monitor_event d) w w1" by simp
    show ?thesis
    proof (cases b)
      case True
      with False pc Suc.prems e1 show ?thesis by simp
    next
      case nb: False
      obtain r2 w2 where sl: "sleep pollMs E w1 = (r2, w2)" by (cases "sleep pollMs E w1")
      have "extends (monitor_event d) w1 (snd (sleep pollMs E w1))" by (rule extends_sleep)
      with sl have e2: "extends (monitor_event d) w1 w2" by simp
      show ?thesis
      proof (cases r2)
        case (Inl e)
        with False pc nb sl Suc.prems have "w' = w2" by simp
        with e1 e2 show ?thesis by (auto intro: extends_trans)
      next
        case (Inr u)
        with False pc nb sl Suc.prems have "monitor_loop n E cfg creds mbox pollMs d w2 = Some w'"
          by simp
        then have "extends (monitor_event d) w2 w'" by (rule Suc.IH)
        with e1 e2 show ?thesis by (blast intro: extends_trans)
      qed
    qed
  qed
qed

section \<open>What reaches the mail provider\<close>

lemma extends_monitorOutlookEmail:
  assumes "monitorOutlookEmail fuel E cfg w = Some w'"
  shows "extends (monitor_event (resolve_draftOnly (resolveOutlookChannelConfig cfg))) w w'"
proof -
  let ?oc = "resolveOutlookChannelConfig cfg"
  let ?d = "resolve_draftOnly ?oc"
  show ?thesis
  proof (cases "resolveOutlookCredentials E ?oc")
    case None
    with assms show ?thesis
      by (auto simp: monitorOutlookEmail_def Let_def monitor_event_def intro!: extends_log)
  next
    case (Some creds)
    let ?mbox = "map_option trim (Option.bind ?oc mailbox)"
    show ?thesis
    proof (cases "truthy ?mbox")
      case False
      with Some assms show ?thesis
        by (auto simp: monitorOutlookEmail_def Let_def monitor_event_def intro!: extends_log)
    next
      case True
      let ?pollMs = "case Option.bind ?oc pollIntervalMs of None \<Rightarrow> 15000 | Some p \<Rightarrow> p"
      let ?w0 = "log_event (LogInfo (''[outlook] monitor started '' @ emdash @ '' mailbox=''
                                         @ the ?mbox @ '' pollMs='' @ String_int ?pollMs
                                         @ '' draftOnly='' @ String_bool ?d)) w"
      from Some True assms
      have "map_option (log_event (LogInfo ''[outlook] monitor stopped''))
              (monitor_loop fuel E cfg creds (the ?mbox) ?pollMs ?d ?w0) = Some w'"
        unfolding monitorOutlookEmail_def Let_def by simp
      then obtain w1 where ml: "monitor_loop fuel E cfg creds (the ?mbox) ?pollMs ?d ?w0 = Some w1"
        and w': "w' = log_event (LogInfo ''[outlook] monitor stopped'') w1"
        by auto
      have e0: "extends (monitor_event ?d) w ?w0"
        by (rule extends_log) (simp add: monitor_event_def)
      from ml have e1: "extends (monitor_event ?d) ?w0 w1" by (rule extends_monitor_loop)
      have e2: "extends (monitor_event ?d) w1 w'"
        unfolding w' by (rule extends_log) (simp add: monitor_event_def)
      from e0 e1 e2 show ?thesis by (blast intro: extends_trans)
    qed
  qed
qed

lemma new_events_append: "trace w' = trace w @ evs \<Longrightarrow> new_events w w' = evs"
  by (simp add: new_events_def)

lemma extends_new_events: "extends P w w' \<Longrightarrow> list_all P (new_events w w')"
  by (auto simp: extends_def new_events_def)

lemma extends_trace: "extends P w w' \<Longrightarrow> trace w' = trace w @ new_events w w'"
  by (auto simp: extends_def new_events_def)

lemma graph_requests_append: "graph_requests (a @ b) = graph_requests a @ graph_requests b"
  by (simp add: graph_requests_def)

lemma graph_requests_token: "list_all is_token_fetch evs \<Longrightarrow> graph_requests evs = []"
  by (induction evs)
     (auto simp: graph_requests_def graph_request_of_def is_token_fetch_def GRAPH_def
        split: event.splits)

lemma extendsE:
  assumes "extends P w w'"
  obtains evs where "trace w' = trace w @ evs" and "list_all P evs" and "new_events w w' = evs"
  using assms by (auto simp: extends_def new_events_def)

lemma posts_to_Nil: "posts_to seg [] = []"
  by (simp add: posts_to_def graph_requests_def)

lemma posts_to_Cons:
  "posts_to seg (e # evs) = filter (is_post_to seg) (graph_request_of e) @ posts_to seg evs"
  by (simp add: posts_to_def graph_requests_def)

lemma monitor_event_reply:
  "monitor_event True e \<Longrightarrow> filter (is_post_to ''reply'') (graph_request_of e) = []"
  by (cases e) (simp_all add: monitor_event_def graph_request_of_def)

lemma monitor_event_createReply:
  "monitor_event False e \<Longrightarrow> filter (is_post_to ''createReply'') (graph_request_of e) = []"
  by (cases e) (simp_all add: monitor_event_def graph_request_of_def)

lemma posts_to_monitor_draft:
  "list_all (monitor_event True) evs \<Longrightarrow> posts_to ''reply'' evs = []"
  by (induction evs) (simp_all add: posts_to_Nil posts_to_Cons monitor_event_reply)

lemma posts_to_monitor_send:
  "list_all (monitor_event False) evs \<Longrightarrow> posts_to ''createReply'' evs = []"
  by (induction evs) (simp_all add: posts_to_Nil posts_to_Cons monitor_event_createReply)

lemma new_events_token:
  "graph_requests (new_events w (snd (getGraphAccessToken E creds w))) = []"
  by (rule graph_requests_token) (rule extends_new_events, rule extends_token)

lemma graphFetch_token_fails:
  assumes "fst (getGraphAccessToken E creds w) = Inl e"
  shows "graph_requests (new_events w (snd (graphFetch E creds path q m b w))) = []"
proof -
  from assms have "snd (graphFetch E creds path q m b w) = snd (getGraphAccessToken E creds w)"
    by (cases "getGraphAccessToken E creds w") (simp add: graphFetch_def)
  then show ?thesis by (simp add: new_events_token)
qed

lemma graph_requests_graph_request:
  "graph_requests [Fetch (graph_request tok path q m b) out] = [graph_request tok path q m b]"
  by (simp add: graph_requests_def graph_request_of_def graph_request_def)

lemma graph_requests_LogInfo: "graph_requests [LogInfo s] = []"
  by (simp add: graph_requests_def graph_request_of_def)

lemma graphFetch_token_ok:
  assumes "fst (getGraphAccessToken E creds w) = Inr tok"
  shows "graph_requests (new_events w (snd (graphFetch E creds path q m b w)))
           = [graph_request tok path q m b]"
proof -
  obtain w1 where g: "getGraphAccessToken E creds w = (Inr tok, w1)"
    using assms by (cases "getGraphAccessToken E creds w") simp
  have "extends is_token_fetch w (snd (getGraphAccessToken E creds w))" by (rule extends_token)
  with g have "extends is_token_fetch w w1" by simp
  then obtain evs where t1: "trace w1 = trace w @ evs" and a1: "list_all is_token_fetch evs"
    by (rule extendsE)
  let ?f = "Fetch (graph_request tok path q m b)
           (outcome (fetch E (trace w1) (graph_request tok path q m b)))"
  from g have "trace (snd (graphFetch E creds path q m b w)) = trace w1 @ [?f]"
    by (simp add: graphFetch_def do_fetch_def Let_def graph_request_def)
  then have "trace (snd (graphFetch E creds path q m b w)) = trace w @ (evs @ [?f])"
    by (simp only: t1 append_assoc)
  then have "new_events w (snd (graphFetch E creds path q m b w)) = evs @ [?f]"
    by (rule new_events_append)
  then show ?thesis
    by (simp only: graph_requests_append graph_requests_token [OF a1]
        graph_requests_graph_request append_Nil)
qed

lemma deliver_flush_world_draft:
  assumes ne: "pushed p buf \<noteq> []"
  shows "snd (snd (deliver E creds mbox msg True p ''final'' (buf, w)))
           = snd (createDraftReply E creds mbox (msg_id msg) (join blank_line (pushed p buf)) w)
       \<or> (\<exists>s. snd (snd (deliver E creds mbox msg True p ''final'' (buf, w)))
           = log_event (LogInfo s)
               (snd (createDraftReply E creds mbox (msg_id msg) (join blank_line (pushed p buf)) w)))"
  unfolding deliver_flush_draft [OF ne]
  by (auto split: prod.split sum.split)

lemma deliver_flush_world_send:
  assumes ne: "pushed p buf \<noteq> []"
  shows "snd (snd (deliver E creds mbox msg False p ''final'' (buf, w)))
           = snd (replyToMessage E creds mbox (msg_id msg) (join blank_line (pushed p buf)) w)
       \<or> (\<exists>s. snd (snd (deliver E creds mbox msg False p ''final'' (buf, w)))
           = log_event (LogInfo s)
               (snd (replyToMessage E creds mbox (msg_id msg) (join blank_line (pushed p buf)) w)))"
  unfolding deliver_flush_send [OF ne]
  by (auto split: prod.split sum.split)

lemma flush_path_draft: "flush_path mbox mid True = [''users'', mbox, ''messages'', mid, ''createReply'']"
  by (simp add: flush_path_def)

lemma flush_path_send: "flush_path mbox mid False = [''users'', mbox, ''messages'', mid, ''reply'']"
  by (simp add: flush_path_def)

lemma deliver_flush_world:
  assumes ne: "pushed p buf \<noteq> []"
  shows "snd (snd (deliver E creds mbox msg d p ''final'' (buf, w)))
           = snd (graphFetch E creds (flush_path mbox (msg_id msg) d) [] ''POST''
                    (JsonBody (text_message (join blank_line (pushed p buf)))) w)
       \<or> (\<exists>s. snd (snd (deliver E creds mbox msg d p ''final'' (buf, w)))
           = log_event (LogInfo s)
               (snd (graphFetch E creds (flush_path mbox (msg_id msg) d) [] ''POST''
                    (JsonBody (text_message (join blank_line (pushed p buf)))) w)))"
proof (cases d)
  case True
  from deliver_flush_world_draft [OF ne, of E creds mbox msg w] True show ?thesis
    by (simp add: flush_path_draft createDraftReply_snd)
next
  case False
  from deliver_flush_world_send [OF ne, of E creds mbox msg w] False show ?thesis
    by (simp add: flush_path_send replyToMessage_snd)
qed

lemma deliver_flush_requests:
  assumes ne: "pushed p buf \<noteq> []" and tk: "fst (getGraphAccessToken E creds w) = Inr tok"
  shows "graph_requests (new_events w (snd (snd (deliver E creds mbox msg d p ''final'' (buf, w)))))
           = [graph_request tok (flush_path mbox (msg_id msg) d) [] ''POST''
                (JsonBody (text_message (join blank_line (pushed p buf))))]"
proof -
  let ?t = "join blank_line (pushed p buf)"
  let ?w' = "snd (snd (deliver E creds mbox msg d p ''final'' (buf, w)))"
  let ?wg = "snd (graphFetch E creds (flush_path mbox (msg_id msg) d) [] ''POST''
                    (JsonBody (text_message ?t)) w)"
  have g: "graph_requests (new_events w ?wg)
             = [graph_request tok (flush_path mbox (msg_id msg) d) [] ''POST'' (JsonBody (text_message ?t))]"
    using tk by (rule graphFetch_token_ok)
  have "extends (\<lambda>e. is_token_fetch e \<or> is_graph_fetch ''POST'' (flush_path mbox (msg_id msg) d) e) w ?wg"
    by (rule extends_graphFetch)
  then obtain evs where t: "trace ?wg = trace w @ evs" and n: "new_events w ?wg = evs"
    by (rule extendsE)
  from deliver_flush_world [OF ne, of E creds mbox msg d w]
  have "?w' = ?wg \<or> (\<exists>s. ?w' = log_event (LogInfo s) ?wg)" .
  then show ?thesis
  proof
    assume "?w' = ?wg"
    with g show ?thesis by simp
  next
    assume "\<exists>s. ?w' = log_event (LogInfo s) ?wg"
    then obtain s where "?w' = log_event (LogInfo s) ?wg" ..
    then have "trace ?w' = trace w @ (evs @ [LogInfo s])"
      by (simp add: log_event_def t)
    then have "new_events w ?w' = evs @ [LogInfo s]" by (rule new_events_append)
    with g n show ?thesis
      by (simp only: graph_requests_append graph_requests_LogInfo append_Nil2)
  qed
qed

(*LEMMAS*)
section \<open>The monitor loop stops on cancellation\<close>

lemma monitor_loop_stops:
  assumes ab: "abortAt E = Some a" and soon: "a < clock w + max 0 pollMs"
  shows "monitor_loop (Suc n) E cfg creds mbox pollMs d w \<noteq> None"
proof (cases "aborted E w")
  case True
  then show ?thesis by simp
next
  case False
  obtain b w1 where pc: "poll_cycle E cfg creds mbox d w = (b, w1)"
    by (cases "poll_cycle E cfg creds mbox d w")
  have "extends (monitor_event d) w (snd (poll_cycle E cfg creds mbox d w))"
    by (rule extends_poll_cycle)
  with pc have mono: "clock w \<le> clock w1" by (simp add: extends_def)
  show ?thesis
  proof (cases b)
    case True
    with False pc show ?thesis by simp
  next
    case nb: False
    from ab soon mono have "fst (sleep pollMs E w1) = Inl (abortReason E)"
      by (simp add: sleep_def aborted_def) arith
    then obtain w2 where "sleep pollMs E w1 = (Inl (abortReason E), w2)"
      by (cases "sleep pollMs E w1") simp
    with False pc nb show ?thesis by simp
  qed
qed

lemma monitorOutlookEmail_stops:
  assumes ab: "abortAt E = Some a"
    and soon: "a < clock w + max 0 (case Option.bind (resolveOutlookChannelConfig cfg) pollIntervalMs of
                                      None \<Rightarrow> 15000 | Some p \<Rightarrow> p)"
  shows "monitorOutlookEmail (Suc n) E cfg w \<noteq> None"
proof -
  let ?oc = "resolveOutlookChannelConfig cfg"
  show ?thesis
  proof (cases "resolveOutlookCredentials E ?oc")
    case None
    then show ?thesis by (simp add: monitorOutlookEmail_def)
  next
    case (Some creds)
    show ?thesis
    proof (cases "truthy (map_option trim (Option.bind ?oc mailbox))")
      case False
      with Some show ?thesis by (simp add: monitorOutlookEmail_def)
    next
      case True
      from ab soon have "\<And>e. monitor_loop (Suc n) E cfg creds
          (the (map_option trim (Option.bind ?oc mailbox)))
          (case Option.bind ?oc pollIntervalMs of None \<Rightarrow> 15000 | Some p \<Rightarrow> p)
          (resolve_draftOnly ?oc) (log_event e w) \<noteq> None"
        by (intro monitor_loop_stops) (simp_all add: log_event_def)
      with Some True show ?thesis
        unfolding monitorOutlookEmail_def Let_def by simp
    qed
  qed
qed

section \<open>Draft or reply\<close>

lemma is_post_to_flush:
  "is_post_to seg (graph_request tok (flush_path mbox mid d) q ''POST'' b)
     = (seg = (if d then ''createReply'' else ''reply''))"
  by (auto simp: is_post_to_def graph_request_def flush_path_def)

lemma deliver_flush_posts:
  assumes "pushed p buf \<noteq> []" and "fst (getGraphAccessToken E creds w) = Inr tok"
  shows "posts_to seg (new_events w (snd (snd (deliver E creds mbox msg d p ''final'' (buf, w)))))
           = (if seg = (if d then ''createReply'' else ''reply'')
              then [graph_request tok (flush_path mbox (msg_id msg) d) [] ''POST''
                      (JsonBody (text_message (join blank_line (pushed p buf))))]
              else [])"
  unfolding posts_to_def deliver_flush_requests [OF assms]
  by (simp add: is_post_to_flush)

lemma monitor_never_posts:
  assumes "monitorOutlookEmail fuel E cfg w = Some w'"
  shows "posts_to (if resolve_draftOnly (resolveOutlookChannelConfig cfg) then ''reply''
                   else ''createReply'') (new_events w w') = []"
proof -
  from assms have "list_all (monitor_event (resolve_draftOnly (resolveOutlookChannelConfig cfg)))
     (new_events w w')"
    by (intro extends_new_events extends_monitorOutlookEmail)
  then show ?thesis
    by (cases "resolve_draftOnly (resolveOutlookChannelConfig cfg)")
       (simp_all add: posts_to_monitor_draft posts_to_monitor_send)
qed

text \<open>
  Claim C1. A flush is a call of the reply sink with kind \<open>final\<close> that leaves a non-empty
  buffer. With the access token at hand, a flush under a \<open>draftOnly\<close> setting that is unset or
  true issues exactly one \<open>createReply\<close> request and no \<open>reply\<close> request; under
  \<open>draftOnly = false\<close> it issues exactly one \<open>reply\<close> request and no \<open>createReply\<close> request.
  And over a whole run of the monitor, whatever the messages and whatever the agent does, a
  setting that is unset or true never lets a \<open>reply\<close> request out, and \<open>draftOnly = false\<close>
  never lets a \<open>createReply\<close> request out.
\<close>

theorem draftOnly_branch:
  fixes oc :: "OutlookChannelConfig option"
  shows
  "(pushed p buf \<noteq> [] \<and> fst (getGraphAccessToken E creds w) = Inr tok \<longrightarrow>
      (Option.bind oc draftOnly \<noteq> Some False \<longrightarrow>
         length (posts_to ''createReply'' (new_events w
           (snd (snd (deliver E creds mbox msg (resolve_draftOnly oc) p ''final'' (buf, w)))))) = 1
         \<and> posts_to ''reply'' (new_events w
           (snd (snd (deliver E creds mbox msg (resolve_draftOnly oc) p ''final'' (buf, w))))) = [])
    \<and> (Option.bind oc draftOnly = Some False \<longrightarrow>
         length (posts_to ''reply'' (new_events w
           (snd (snd (deliver E creds mbox msg (resolve_draftOnly oc) p ''final'' (buf, w)))))) = 1
         \<and> posts_to ''createReply'' (new_events w
           (snd (snd (deliver E creds mbox msg (resolve_draftOnly oc) p ''final'' (buf, w))))) = []))
   \<and> (monitorOutlookEmail fuel E' cfg w0 = Some w' \<longrightarrow>
        (Option.bind (resolveOutlookChannelConfig cfg) draftOnly \<noteq> Some False \<longrightarrow>
           posts_to ''reply'' (new_events w0 w') = [])
      \<and> (Option.bind (resolveOutlookChannelConfig cfg) draftOnly = Some False \<longrightarrow>
           posts_to ''createReply'' (new_events w0 w') = []))"
proof (intro conjI impI)
  assume h: "pushed p buf \<noteq> [] \<and> fst (getGraphAccessToken E creds w) = Inr tok"
    and d: "Option.bind oc draftOnly \<noteq> Some False"
  from d have r: "resolve_draftOnly oc" by (simp add: resolve_draftOnly_def)
  from h show "length (posts_to ''createReply'' (new_events w
           (snd (snd (deliver E creds mbox msg (resolve_draftOnly oc) p ''final'' (buf, w)))))) = 1"
    by (simp add: deliver_flush_posts r)
  from h show "posts_to ''reply'' (new_events w
           (snd (snd (deliver E creds mbox msg (resolve_draftOnly oc) p ''final'' (buf, w))))) = []"
    by (simp add: deliver_flush_posts r)
next
  assume h: "pushed p buf \<noteq> [] \<and> fst (getGraphAccessToken E creds w) = Inr tok"
    and d: "Option.bind oc draftOnly = Some False"
  from d have r: "\<not> resolve_draftOnly oc" by (simp add: resolve_draftOnly_def)
  from h show "length (posts_to ''reply'' (new_events w
           (snd (snd (deliver E creds mbox msg (resolve_draftOnly oc) p ''final'' (buf, w)))))) = 1"
    by (simp add: deliver_flush_posts r)
  from h show "posts_to ''createReply'' (new_events w
           (snd (snd (deliver E creds mbox msg (resolve_draftOnly oc) p ''final'' (buf, w))))) = []"
    by (simp add: deliver_flush_posts r)
next
  assume m: "monitorOutlookEmail fuel E' cfg w0 = Some w'"
    and d: "Option.bind (resolveOutlookChannelConfig cfg) draftOnly \<noteq> Some False"
  from d have "resolve_draftOnly (resolveOutlookChannelConfig cfg)" by (simp add: resolve_draftOnly_def)
  with monitor_never_posts [OF m] show "posts_to ''reply'' (new_events w0 w') = []" by simp
next
  assume m: "monitorOutlookEmail fuel E' cfg w0 = Some w'"
    and d: "Option.bind (resolveOutlookChannelConfig cfg) draftOnly = Some False"
  from d have "\<not> resolve_draftOnly (resolveOutlookChannelConfig cfg)" by (simp add: resolve_draftOnly_def)
  with monitor_never_posts [OF m] show "posts_to ''createReply'' (new_events w0 w') = []" by simp
qed

lemma demo_cfg_channel: "resolveOutlookChannelConfig (demo_cfg d) = Some (demo_channel d)"
  by (simp add: resolveOutlookChannelConfig_def demo_cfg_def)

lemma demo_monitor_stops: "demo_monitor d \<noteq> None"
  unfolding demo_monitor_def One_nat_def
  by (rule monitorOutlookEmail_stops [where a = 5])
     (simp_all add: stub_env_def demo_world_def demo_cfg_channel demo_channel_def)

theorem draftOnly_branch_witness:
  "length (posts_to ''createReply'' (new_events (demo_world 0 fresh_token None)
      (snd (snd (deliver (stub_env [] None) demo_creds ''helpdesk@example.com''
                  (demo_msg ''m1'' ''a@b.com'' ''2024-01-01T00:00:00Z'') (resolve_draftOnly None)
                  (chunk ''hello'') ''final'' ([], demo_world 0 fresh_token None)))))) = 1
   \<and> posts_to ''reply'' (new_events (demo_world 0 fresh_token None)
      (snd (snd (deliver (stub_env [] None) demo_creds ''helpdesk@example.com''
                  (demo_msg ''m1'' ''a@b.com'' ''2024-01-01T00:00:00Z'') (resolve_draftOnly None)
                  (chunk ''hello'') ''final'' ([], demo_world 0 fresh_token None))))) = []
   \<and> demo_monitor None \<noteq> None
   \<and> posts_to ''reply'' (new_events
        (demo_world 0 fresh_token
          (Some (demo_runtime (chunk_script [(chunk ''one'', ''block''), (chunk ''two'', ''final'')] Completed))))
        (the (demo_monitor None))) = []"
proof -
  have p: "pushed (chunk ''hello'') [] \<noteq> []"
    by (simp add: pushed_def chunk_def truthy_def)
  have t: "fst (getGraphAccessToken (stub_env [] None) demo_creds (demo_world 0 fresh_token None))
             = Inr ''tok-old''"
    by (simp add: getGraphAccessToken_def demo_world_def fresh_token_def)
  have s: "demo_monitor None \<noteq> None" by (rule demo_monitor_stops)
  then have m: "monitorOutlookEmail 1
       (stub_env [demo_msg ''m1'' ''a@b.com'' ''2024-01-01T00:00:00Z''] (Some 5))
       (demo_cfg None)
       (demo_world 0 fresh_token
          (Some (demo_runtime (chunk_script [(chunk ''one'', ''block''), (chunk ''two'', ''final'')] Completed))))
       = Some (the (demo_monitor None))"
    by (simp add: demo_monitor_def)
  have u: "Option.bind (resolveOutlookChannelConfig (demo_cfg None)) draftOnly \<noteq> Some False"
    by (simp add: demo_cfg_channel demo_channel_def)
  have n: "Option.bind (None :: OutlookChannelConfig option) draftOnly \<noteq> Some False" by simp
  note th = draftOnly_branch [where p = "chunk ''hello''" and buf = "[]" and E = "stub_env [] None"
      and creds = demo_creds and w = "demo_world 0 fresh_token None" and tok = "''tok-old''"
      and oc = None and mbox = "''helpdesk@example.com''"
      and msg = "demo_msg ''m1'' ''a@b.com'' ''2024-01-01T00:00:00Z''" and fuel = 1
      and E' = "stub_env [demo_msg ''m1'' ''a@b.com'' ''2024-01-01T00:00:00Z''] (Some 5)"
      and cfg = "demo_cfg None"
      and ?w0.0 = "demo_world 0 fresh_token
          (Some (demo_runtime (chunk_script [(chunk ''one'', ''block''), (chunk ''two'', ''final'')] Completed)))"
      and w' = "the (demo_monitor None)"]
  from th p t n have a: "length (posts_to ''createReply'' (new_events (demo_world 0 fresh_token None)
      (snd (snd (deliver (stub_env [] None) demo_creds ''helpdesk@example.com''
                  (demo_msg ''m1'' ''a@b.com'' ''2024-01-01T00:00:00Z'') (resolve_draftOnly None)
                  (chunk ''hello'') ''final'' ([], demo_world 0 fresh_token None)))))) = 1
   \<and> posts_to ''reply'' (new_events (demo_world 0 fresh_token None)
      (snd (snd (deliver (stub_env [] None) demo_creds ''helpdesk@example.com''
                  (demo_msg ''m1'' ''a@b.com'' ''2024-01-01T00:00:00Z'') (resolve_draftOnly None)
                  (chunk ''hello'') ''final'' ([], demo_world 0 fresh_token None))))) = []"
    by blast
  from th m u have b: "posts_to ''reply'' (new_events
        (demo_world 0 fresh_token
          (Some (demo_runtime (chunk_script [(chunk ''one'', ''block''), (chunk ''two'', ''final'')] Completed))))
        (the (demo_monitor None))) = []"
    by blast
  from a s b show ?thesis by blast
qed

section \<open>Buffering until the final signal\<close>


lemma texts_of_Cons: "texts_of (c # cs) = pushed (fst c) [] @ texts_of cs"
  by (simp add: texts_of_def pushed_def)








section \<open>The trace of one processed message\<close>

lemma graphFetch_Inr:
  assumes "graphFetch E creds path q m b w = (Inr res, w1)"
  shows "\<exists>tok pre. trace w1 = trace w @ pre @ [Fetch (graph_request tok path q m b) (Inr res)]
           \<and> list_all is_token_fetch pre"
proof -
  obtain t w0 where g: "getGraphAccessToken E creds w = (t, w0)"
    by (cases "getGraphAccessToken E creds w")
  have "extends is_token_fetch w (snd (getGraphAccessToken E creds w))" by (rule extends_token)
  with g have "extends is_token_fetch w w0" by simp
  then obtain pre where t0: "trace w0 = trace w @ pre" and a: "list_all is_token_fetch pre"
    by (rule extendsE)
  show ?thesis
  proof (cases t)
    case (Inl e)
    with g assms show ?thesis by (simp add: graphFetch_def)
  next
    case (Inr tok)
    with g assms have "do_fetch E (graph_request tok path q m b) w0 = (Inr res, w1)"
      by (simp add: graphFetch_def graph_request_def)
    then have "trace w1 = trace w0 @ [Fetch (graph_request tok path q m b) (Inr res)]"
      by (auto simp: do_fetch_def Let_def)
    with t0 a show ?thesis by auto
  qed
qed

lemma markAsRead_Inr:
  assumes "markAsRead E creds mbox mid w = (Inr u, w1)"
  shows "\<exists>pre f. trace w1 = trace w @ pre @ [f] \<and> list_all is_token_fetch pre
           \<and> is_markRead_ok mbox mid f"
proof -
  obtain r w' where g: "graphFetch E creds [''users'', mbox, ''messages'', mid] []
             ''PATCH'' (JsonBody (JObj [(''isRead'', JBool True)])) w = (r, w')"
    by (cases "graphFetch E creds [''users'', mbox, ''messages'', mid] []
             ''PATCH'' (JsonBody (JObj [(''isRead'', JBool True)])) w")
  show ?thesis
  proof (cases r)
    case (Inl e)
    with g assms show ?thesis by (simp add: markAsRead_def)
  next
    case (Inr res)
    with g assms have ok: "res_ok res" and w: "w' = w1"
      by (auto simp: markAsRead_def split: if_splits)
    from g Inr w have "graphFetch E creds [''users'', mbox, ''messages'', mid] []
             ''PATCH'' (JsonBody (JObj [(''isRead'', JBool True)])) w = (Inr res, w1)" by simp
    then obtain tok pre where "trace w1 = trace w @ pre @ [Fetch (graph_request tok
          [''users'', mbox, ''messages'', mid] [] ''PATCH'' (JsonBody (JObj [(''isRead'', JBool True)]))) (Inr res)]"
      and "list_all is_token_fetch pre"
      by (auto dest: graphFetch_Inr)
    moreover from ok have "is_markRead_ok mbox mid (Fetch (graph_request tok
          [''users'', mbox, ''messages'', mid] [] ''PATCH'' (JsonBody (JObj [(''isRead'', JBool True)]))) (Inr res))"
      by (simp add: is_markRead_ok_def graph_request_def)
    ultimately show ?thesis by blast
  qed
qed

lemma processMessage_unmarked:
  assumes rt: "runtime w = Some core"
    and m: "markAsRead E creds mbox (msg_id msg) (log_event (processing_line msg) w) = (Inl e, w1)"
  shows "\<exists>e1. new_events w (snd (processMessage E cfg creds mbox msg d w)) = processing_line msg # e1
          \<and> list_all (\<lambda>e. is_token_fetch e
                \<or> is_graph_fetch ''PATCH'' [''users'', mbox, ''messages'', msg_id msg] e) e1"
proof -
  have "extends (\<lambda>e. is_token_fetch e
            \<or> is_graph_fetch ''PATCH'' [''users'', mbox, ''messages'', msg_id msg] e)
          (log_event (processing_line msg) w)
          (snd (markAsRead E creds mbox (msg_id msg) (log_event (processing_line msg) w)))"
    by (rule extends_markAsRead)
  with m obtain e1 where t: "trace w1 = trace (log_event (processing_line msg) w) @ e1"
    and a: "list_all (\<lambda>e. is_token_fetch e
                \<or> is_graph_fetch ''PATCH'' [''users'', mbox, ''messages'', msg_id msg] e) e1"
    by (auto elim: extendsE)
  from rt m have "snd (processMessage E cfg creds mbox msg d w) = w1"
    by (simp add: processMessage_runtime processing_line_def)
  moreover from t have "trace w1 = trace w @ (processing_line msg # e1)"
    by (simp add: log_event_def)
  ultimately have "new_events w (snd (processMessage E cfg creds mbox msg d w)) = processing_line msg # e1"
    by (simp add: new_events_append)
  with a show ?thesis by blast
qed

lemma processMessage_dispatched:
  assumes rt: "runtime w = Some core"
    and m: "markAsRead E creds mbox (msg_id msg) (log_event (processing_line msg) w) = (Inr u, w1)"
    and rd: "run_dispatch (deliver E creds mbox msg d)
               (dispatchReplyFromConfig core
                  (finalizeInboundContext core (inbound_context E mbox msg)) cfg)
               ([], log_event (DispatchStart
                  (finalizeInboundContext core (inbound_context E mbox msg))) w1) = (r2, s3)"
  shows "\<exists>pre f tail.
           new_events w (snd (processMessage E cfg creds mbox msg d w))
             = processing_line msg # pre @ f
                 # DispatchStart (finalizeInboundContext core (inbound_context E mbox msg))
                 # new_events (log_event (DispatchStart
                      (finalizeInboundContext core (inbound_context E mbox msg))) w1) (snd s3)
                 @ tail
           \<and> list_all is_token_fetch pre \<and> is_markRead_ok mbox (msg_id msg) f
           \<and> list_all (\<lambda>e. is_log e \<or> e = DispatchIdle) tail"
proof -
  let ?ctx = "finalizeInboundContext core (inbound_context E mbox msg)"
  let ?w0 = "log_event (processing_line msg) w"
  let ?w2 = "log_event (DispatchStart ?ctx) w1"
  from m obtain pre f where t1: "trace w1 = trace ?w0 @ pre @ [f]"
    and a1: "list_all is_token_fetch pre" and f: "is_markRead_ok mbox (msg_id msg) f"
    by (auto dest: markAsRead_Inr)
  have "extends (dispatch_event mbox (msg_id msg) d) ?w2
       (snd (snd (run_dispatch (deliver E creds mbox msg d)
          (dispatchReplyFromConfig core ?ctx cfg) ([], ?w2))))"
    using extends_run_dispatch [where s = "([], ?w2)"] by simp
  with rd obtain e3 where t3: "trace (snd s3) = trace ?w2 @ e3"
    and n3: "new_events ?w2 (snd s3) = e3"
    by (auto elim: extendsE)
  have "\<exists>tail. trace (snd (processMessage E cfg creds mbox msg d w)) = trace (snd s3) @ tail
          \<and> list_all (\<lambda>e. is_log e \<or> e = DispatchIdle) tail"
  proof (cases r2)
    case (Inl err)
    with rt m rd have "snd (processMessage E cfg creds mbox msg d w)
        = log_event DispatchIdle
            (log_event (LogError (''[outlook] dispatch failed for id='' @ msg_id msg
                                  @ '': '' @ String_err err)) (snd s3))"
      by (simp add: processMessage_runtime processing_line_def)
    then have "trace (snd (processMessage E cfg creds mbox msg d w))
        = trace (snd s3) @ [LogError (''[outlook] dispatch failed for id='' @ msg_id msg
                                  @ '': '' @ String_err err), DispatchIdle]"
      by (simp add: log_event_def)
    moreover have "list_all (\<lambda>e. is_log e \<or> e = DispatchIdle)
        [LogError (''[outlook] dispatch failed for id='' @ msg_id msg
                                  @ '': '' @ String_err err), DispatchIdle]"
      by (simp add: is_log_def)
    ultimately show ?thesis by blast
  next
    case (Inr u2)
    with rt m rd have "snd (processMessage E cfg creds mbox msg d w) = log_event DispatchIdle (snd s3)"
      by (simp add: processMessage_runtime processing_line_def)
    then have "trace (snd (processMessage E cfg creds mbox msg d w)) = trace (snd s3) @ [DispatchIdle]"
      by (simp add: log_event_def)
    then show ?thesis by auto
  qed
  then obtain tail where t4: "trace (snd (processMessage E cfg creds mbox msg d w)) = trace (snd s3) @ tail"
    and a4: "list_all (\<lambda>e. is_log e \<or> e = DispatchIdle) tail"
    by blast
  from t1 t3 t4 have "trace (snd (processMessage E cfg creds mbox msg d w))
      = trace w @ (processing_line msg # pre @ f # DispatchStart ?ctx # e3 @ tail)"
    by (simp add: log_event_def)
  then have "new_events w (snd (processMessage E cfg creds mbox msg d w))
      = processing_line msg # pre @ f # DispatchStart ?ctx # e3 @ tail"
    by (rule new_events_append)
  with n3 a1 f a4 show ?thesis by blast
qed

lemmas demo_process_defs =
  demo_process_def two_chunks_def silent_run_def processMessage_def getOutlookRuntime_def
  demo_world_def fresh_token_def demo_runtime_def chunk_def log_event_def markAsRead_def
  graphFetch_def getGraphAccessToken_def do_fetch_def stub_env_def ok_response_def Let_def
  deliver_def createDraftReply_def replyToMessage_def truthy_def demo_msg_def demo_creds_def
  senderAddress_of_def new_events_def

section \<open>Mark as read comes first\<close>

lemma markRead_first_marked: "markRead_first mbox mid True evs"
  by (induction evs) simp_all

lemma markRead_first_quiet:
  "list_all (\<lambda>e. \<not> is_dispatch_event e) evs \<Longrightarrow> markRead_first mbox mid b evs"
  by (induction evs arbitrary: b) simp_all

lemma markRead_first_then:
  "list_all (\<lambda>e. \<not> is_dispatch_event e) pre \<Longrightarrow> is_markRead_ok mbox mid f \<Longrightarrow>
   markRead_first mbox mid b (pre @ f # rest)"
proof (induction pre arbitrary: b)
  case Nil
  then have "\<not> is_dispatch_event f"
    by (cases f) (simp_all add: is_markRead_ok_def is_dispatch_event_def)
  with Nil show ?case by (simp add: markRead_first_marked)
next
  case (Cons e pre)
  then show ?case by simp
qed

lemma token_fetch_quiet: "is_token_fetch e \<Longrightarrow> \<not> is_dispatch_event e"
  by (cases e) (simp_all add: is_token_fetch_def is_dispatch_event_def)

lemma patch_fetch_quiet: "is_graph_fetch m path e \<Longrightarrow> \<not> is_dispatch_event e"
  by (cases e) (simp_all add: is_graph_fetch_def is_dispatch_event_def)

text \<open>
  Claim C2. In what the processing of a message adds to the trace, every event of the
  dispatch (its start and each call of the reply sink) comes after the completed
  mark-as-read call for that message: the \<open>PATCH\<close> of \<open>isRead\<close>, answered with a 2xx status.
  When that call fails, there is no dispatch at all.
\<close>

theorem markRead_before_dispatch:
  "markRead_first mbox (msg_id msg) False
     (new_events w (snd (processMessage E cfg creds mbox msg d w)))"
proof (cases "runtime w")
  case None
  then show ?thesis by (simp add: processMessage_no_runtime new_events_def)
next
  case (Some core)
  obtain r1 w1 where m: "markAsRead E creds mbox (msg_id msg) (log_event (processing_line msg) w) = (r1, w1)"
    by (cases "markAsRead E creds mbox (msg_id msg) (log_event (processing_line msg) w)")
  show ?thesis
  proof (cases r1)
    case (Inl e)
    with m Some obtain e1 where n: "new_events w (snd (processMessage E cfg creds mbox msg d w))
        = processing_line msg # e1"
      and a: "list_all (\<lambda>e. is_token_fetch e
                \<or> is_graph_fetch ''PATCH'' [''users'', mbox, ''messages'', msg_id msg] e) e1"
      by (blast dest: processMessage_unmarked)
    from a have "list_all (\<lambda>e. \<not> is_dispatch_event e) e1"
      by (auto simp: list_all_iff dest: token_fetch_quiet patch_fetch_quiet)
    then have "list_all (\<lambda>e. \<not> is_dispatch_event e) (processing_line msg # e1)"
      by (simp add: processing_line_def is_dispatch_event_def)
    then show ?thesis unfolding n by (rule markRead_first_quiet)
  next
    case (Inr u)
    obtain r2 s3 where rd: "run_dispatch (deliver E creds mbox msg d)
               (dispatchReplyFromConfig core
                  (finalizeInboundContext core (inbound_context E mbox msg)) cfg)
               ([], log_event (DispatchStart
                  (finalizeInboundContext core (inbound_context E mbox msg))) w1) = (r2, s3)"
      by (cases "run_dispatch (deliver E creds mbox msg d)
               (dispatchReplyFromConfig core
                  (finalizeInboundContext core (inbound_context E mbox msg)) cfg)
               ([], log_event (DispatchStart
                  (finalizeInboundContext core (inbound_context E mbox msg))) w1)")
    from m Inr have m': "markAsRead E creds mbox (msg_id msg) (log_event (processing_line msg) w) = (Inr u, w1)"
      by simp
    from processMessage_dispatched [OF Some m' rd]
    obtain pre f rest where n: "new_events w (snd (processMessage E cfg creds mbox msg d w))
        = (processing_line msg # pre) @ f # rest"
      and a: "list_all is_token_fetch pre" and f: "is_markRead_ok mbox (msg_id msg) f"
      by auto
    from a have "list_all (\<lambda>e. \<not> is_dispatch_event e) pre"
      by (auto simp: list_all_iff dest: token_fetch_quiet)
    then have "list_all (\<lambda>e. \<not> is_dispatch_event e) (processing_line msg # pre)"
      by (simp add: processing_line_def is_dispatch_event_def)
    then show ?thesis unfolding n using f by (rule markRead_first_then)
  qed
qed

theorem markRead_before_dispatch_witness:
  "markRead_first ''helpdesk@example.com'' ''m1'' False
     (new_events (demo_world 0 fresh_token (Some (demo_runtime two_chunks))) (snd (demo_process two_chunks)))
   \<and> map is_dispatch_event
       (new_events (demo_world 0 fresh_token (Some (demo_runtime two_chunks))) (snd (demo_process two_chunks)))
     = [False, False, True, True, True, False, False, False]
   \<and> is_markRead_ok ''helpdesk@example.com'' ''m1''
       (new_events (demo_world 0 fresh_token (Some (demo_runtime two_chunks))) (snd (demo_process two_chunks)) ! 1)"
proof -
  have 1: "markRead_first ''helpdesk@example.com'' ''m1'' False
     (new_events (demo_world 0 fresh_token (Some (demo_runtime two_chunks))) (snd (demo_process two_chunks)))"
    using markRead_before_dispatch [of "''helpdesk@example.com''"
      "demo_msg ''m1'' ''Alice@B.com'' ''2024-01-01T00:00:00Z''"
      "demo_world 0 fresh_token (Some (demo_runtime two_chunks))" "stub_env [] None" "demo_cfg None"
      demo_creds True]
    by (simp add: demo_process_def demo_msg_def)
  have 2: "map is_dispatch_event
       (new_events (demo_world 0 fresh_token (Some (demo_runtime two_chunks))) (snd (demo_process two_chunks)))
     = [False, False, True, True, True, False, False, False]"
    by (simp add: demo_process_defs is_dispatch_event_def)
  have 3: "is_markRead_ok ''helpdesk@example.com'' ''m1''
       (new_events (demo_world 0 fresh_token (Some (demo_runtime two_chunks))) (snd (demo_process two_chunks)) ! 1)"
    by (simp add: demo_process_defs is_markRead_ok_def GRAPH_def)
  from 1 2 3 show ?thesis by blast
qed

section \<open>No text, no reply\<close>

lemma graph_requests_none:
  "list_all Q evs \<Longrightarrow> (\<And>e. Q e \<Longrightarrow> graph_request_of e = []) \<Longrightarrow> graph_requests evs = []"
  by (induction evs) (simp_all add: graph_requests_def)

lemma sink_calls_none:
  "list_all Q evs \<Longrightarrow> (\<And>e. Q e \<Longrightarrow> sink_call_of e = []) \<Longrightarrow> sink_calls evs = []"
  by (induction evs) (simp_all add: sink_calls_def)

lemma sink_calls_append: "sink_calls (a @ b) = sink_calls a @ sink_calls b"
  by (simp add: sink_calls_def)

lemma sink_calls_Cons: "sink_calls (e # evs) = sink_call_of e @ sink_calls evs"
  by (simp add: sink_calls_def)

lemma graph_requests_Cons: "graph_requests (e # evs) = graph_request_of e @ graph_requests evs"
  by (simp add: graph_requests_def)

lemma token_fetch_no_sink: "is_token_fetch e \<Longrightarrow> sink_call_of e = []"
  by (cases e) (simp_all add: is_token_fetch_def sink_call_of_def)

lemma graph_fetch_no_sink: "is_graph_fetch m path e \<Longrightarrow> sink_call_of e = []"
  by (cases e) (simp_all add: is_graph_fetch_def sink_call_of_def)

lemma markRead_ok_no_sink: "is_markRead_ok mbox mid e \<Longrightarrow> sink_call_of e = []"
  by (cases e) (simp_all add: is_markRead_ok_def sink_call_of_def)

lemma tail_no_sink: "is_log e \<or> e = DispatchIdle \<Longrightarrow> sink_call_of e = []"
  by (cases e) (simp_all add: is_log_def sink_call_of_def)

lemma token_fetch_no_request: "is_token_fetch e \<Longrightarrow> graph_request_of e = []"
  by (cases e) (simp_all add: is_token_fetch_def graph_request_of_def GRAPH_def)

lemma sink_call_no_request: "is_sink_call e \<Longrightarrow> graph_request_of e = []"
  by (cases e) (simp_all add: is_sink_call_def graph_request_of_def)

lemma tail_no_request: "is_log e \<or> e = DispatchIdle \<Longrightarrow> graph_request_of e = []"
  by (cases e) (simp_all add: is_log_def graph_request_of_def)

lemma patch_request:
  "is_token_fetch e \<or> is_graph_fetch ''PATCH'' path e \<Longrightarrow>
   list_all (\<lambda>r. req_method r = ''PATCH'') (graph_request_of e)"
  by (cases e) (auto simp: is_token_fetch_def is_graph_fetch_def graph_request_of_def GRAPH_def)

lemma markRead_ok_request:
  "is_markRead_ok mbox mid e \<Longrightarrow> list_all (\<lambda>r. req_method r = ''PATCH'') (graph_request_of e)"
  by (cases e) (auto simp: is_markRead_ok_def graph_request_of_def)

lemma patch_requests:
  "list_all (\<lambda>e. is_token_fetch e \<or> is_graph_fetch ''PATCH'' path e) evs \<Longrightarrow>
   list_all (\<lambda>r. req_method r = ''PATCH'') (graph_requests evs)"
  by (induction evs) (auto simp: graph_requests_def intro: patch_request)

lemma is_sink_call_SinkCall: "is_sink_call (SinkCall p k)"
  by (simp add: is_sink_call_def)

lemma run_dispatch_silent:
  assumes "run_dispatch (deliver E creds mbox msg d) t ([], w) = (r, s')"
    and "list_all (\<lambda>c. \<not> truthy (payload_text (fst c))) (sink_calls (new_events w (snd s')))"
  shows "fst s' = [] \<and> list_all is_sink_call (new_events w (snd s'))"
  using assms
proof (induction t arbitrary: w)
  case Completed
  then show ?case by (auto simp: new_events_def)
next
  case (Thrown e)
  then show ?case by (auto simp: new_events_def)
next
  case (Elapse n t)
  let ?w1 = "w\<lparr>clock := clock w + int n\<rparr>"
  have same: "new_events ?w1 (snd s') = new_events w (snd s')" by (simp add: new_events_def)
  from Elapse.prems(1) have "run_dispatch (deliver E creds mbox msg d) t ([], ?w1) = (r, s')"
    by simp
  moreover from Elapse.prems(2)
  have "list_all (\<lambda>c. \<not> truthy (payload_text (fst c))) (sink_calls (new_events ?w1 (snd s')))"
    by (simp only: same)
  ultimately have "fst s' = [] \<and> list_all is_sink_call (new_events ?w1 (snd s'))"
    by (rule Elapse.IH)
  then show ?case by (simp only: same)
next
  case (Invoke p k cont)
  let ?w0 = "log_event (SinkCall p k) w"
  obtain res s1 where dl: "deliver E creds mbox msg d p k ([], ?w0) = (res, s1)"
    by (cases "deliver E creds mbox msg d p k ([], ?w0)")
  let ?x = "case res of Inl e \<Rightarrow> Some e | Inr u \<Rightarrow> None"
  from Invoke.prems(1) dl
  have run: "run_dispatch (deliver E creds mbox msg d) (cont ?x) s1 = (r, s')" by simp
  have "extends (deliver_event mbox (msg_id msg) d) ?w0
          (snd (snd (deliver E creds mbox msg d p k ([], ?w0))))"
    by (rule extends_deliver)
  with dl obtain e1 where t1: "trace (snd s1) = trace ?w0 @ e1" by (auto elim: extendsE)
  have "extends (dispatch_event mbox (msg_id msg) d) (snd s1)
          (snd (snd (run_dispatch (deliver E creds mbox msg d) (cont ?x) s1)))"
    by (rule extends_run_dispatch)
  with run obtain e2 where t2: "trace (snd s') = trace (snd s1) @ e2" by (auto elim: extendsE)
  from t1 t2 have "trace (snd s') = trace w @ (SinkCall p k # e1 @ e2)"
    by (simp add: log_event_def)
  then have n: "new_events w (snd s') = SinkCall p k # e1 @ e2" by (rule new_events_append)
  from t1 t2 have "trace (snd s') = trace ?w0 @ (e1 @ e2)" by simp
  then have n0: "new_events ?w0 (snd s') = e1 @ e2" by (rule new_events_append)
  from Invoke.prems(2) have quiet: "\<not> truthy (payload_text p)"
    and rest: "list_all (\<lambda>c. \<not> truthy (payload_text (fst c))) (sink_calls (new_events ?w0 (snd s')))"
    unfolding n n0 by (simp_all add: sink_calls_Cons sink_call_of_def)
  from quiet have "pushed p [] = []" by (simp add: pushed_def)
  then have "deliver E creds mbox msg d p k ([], ?w0) = (Inr (), ([], ?w0))"
    by (simp add: deliver_no_flush)
  with dl have "res = Inr ()" and "s1 = ([], ?w0)" by simp_all
  with run have "run_dispatch (deliver E creds mbox msg d) (cont None) ([], ?w0) = (r, s')"
    by simp
  then have "fst s' = [] \<and> list_all is_sink_call (new_events ?w0 (snd s'))"
    using rest by (rule Invoke.IH [rotated]) simp
  then show ?case unfolding n n0 by (simp add: is_sink_call_SinkCall)
qed

text \<open>
  Claim C10. If, while a message is processed, no call of the reply sink carries a non-empty
  text, then the processing sends nothing but the mark-as-read \<open>PATCH\<close> to the mail provider:
  neither \<open>reply\<close> nor \<open>createReply\<close> is requested, whatever kinds the sink calls have
  (a final one among them or not) and however the dispatch ends.
\<close>

theorem no_text_no_reply:
  "list_all (\<lambda>c. \<not> truthy (payload_text (fst c)))
     (sink_calls (new_events w (snd (processMessage E cfg creds mbox msg d w))))
   \<longrightarrow> list_all (\<lambda>r. req_method r = ''PATCH'')
         (graph_requests (new_events w (snd (processMessage E cfg creds mbox msg d w))))
       \<and> posts_to ''reply'' (new_events w (snd (processMessage E cfg creds mbox msg d w))) = []
       \<and> posts_to ''createReply'' (new_events w (snd (processMessage E cfg creds mbox msg d w))) = []"
proof
  let ?new = "new_events w (snd (processMessage E cfg creds mbox msg d w))"
  assume quiet: "list_all (\<lambda>c. \<not> truthy (payload_text (fst c))) (sink_calls ?new)"
  have patch: "list_all (\<lambda>r. req_method r = ''PATCH'') (graph_requests ?new)"
  proof (cases "runtime w")
    case None
    then show ?thesis by (simp add: processMessage_no_runtime new_events_def graph_requests_def)
  next
    case (Some core)
    obtain r1 w1 where m: "markAsRead E creds mbox (msg_id msg) (log_event (processing_line msg) w) = (r1, w1)"
      by (cases "markAsRead E creds mbox (msg_id msg) (log_event (processing_line msg) w)")
    show ?thesis
    proof (cases r1)
      case (Inl e)
      with m Some obtain e1 where n: "?new = processing_line msg # e1"
        and a: "list_all (\<lambda>e. is_token_fetch e
                  \<or> is_graph_fetch ''PATCH'' [''users'', mbox, ''messages'', msg_id msg] e) e1"
        by (blast dest: processMessage_unmarked)
      from a have "list_all (\<lambda>r. req_method r = ''PATCH'') (graph_requests e1)"
        by (rule patch_requests)
      then show ?thesis unfolding n
        by (simp add: graph_requests_Cons processing_line_def graph_request_of_def)
    next
      case (Inr u)
      let ?ctx = "finalizeInboundContext core (inbound_context E mbox msg)"
      let ?w2 = "log_event (DispatchStart ?ctx) w1"
      obtain r2 s3 where rd: "run_dispatch (deliver E creds mbox msg d)
                 (dispatchReplyFromConfig core ?ctx cfg) ([], ?w2) = (r2, s3)"
        by (cases "run_dispatch (deliver E creds mbox msg d)
                 (dispatchReplyFromConfig core ?ctx cfg) ([], ?w2)")
      from m Inr have m': "markAsRead E creds mbox (msg_id msg) (log_event (processing_line msg) w) = (Inr u, w1)"
        by simp
      from processMessage_dispatched [OF Some m' rd]
      obtain pre f tail where n: "?new = processing_line msg # pre @ f # DispatchStart ?ctx
                   # new_events ?w2 (snd s3) @ tail"
        and a: "list_all is_token_fetch pre" and f: "is_markRead_ok mbox (msg_id msg) f"
        and t: "list_all (\<lambda>e. is_log e \<or> e = DispatchIdle) tail"
        by blast
      have s_pre: "sink_calls pre = []" using a by (rule sink_calls_none) (rule token_fetch_no_sink)
      have s_tail: "sink_calls tail = []" using t by (rule sink_calls_none) (rule tail_no_sink)
      from quiet have "list_all (\<lambda>c. \<not> truthy (payload_text (fst c)))
          (sink_calls (new_events ?w2 (snd s3)))"
        unfolding n
        by (simp add: sink_calls_Cons sink_calls_append s_pre s_tail markRead_ok_no_sink [OF f]
              processing_line_def sink_call_of_def)
      with rd have "fst s3 = [] \<and> list_all is_sink_call (new_events ?w2 (snd s3))"
        by (rule run_dispatch_silent)
      then have g3: "graph_requests (new_events ?w2 (snd s3)) = []"
        by (auto intro: graph_requests_none sink_call_no_request)
      have g_pre: "graph_requests pre = []"
        using a by (rule graph_requests_none) (rule token_fetch_no_request)
      have g_tail: "graph_requests tail = []"
        using t by (rule graph_requests_none) (rule tail_no_request)
      show ?thesis unfolding n
        by (simp add: graph_requests_Cons graph_requests_append g_pre g3 g_tail
              markRead_ok_request [OF f] processing_line_def)
           (simp add: graph_request_of_def)
    qed
  qed
  have none: "\<And>seg. posts_to seg ?new = []"
  proof -
    fix seg
    from patch have "\<forall>r \<in> set (graph_requests ?new). \<not> is_post_to seg r"
      by (auto simp: list_all_iff is_post_to_def)
    then show "posts_to seg ?new = []" by (simp add: posts_to_def)
  qed
  from patch none show "list_all (\<lambda>r. req_method r = ''PATCH'') (graph_requests ?new)
       \<and> posts_to ''reply'' ?new = [] \<and> posts_to ''createReply'' ?new = []"
    by simp
qed

theorem no_text_no_reply_witness:
  "sink_calls (new_events (demo_world 0 fresh_token (Some (demo_runtime silent_run)))
      (snd (demo_process silent_run)))
     = [(\<lparr>payload_text = None\<rparr>, ''block''), (\<lparr>payload_text = Some []\<rparr>, ''final'')]
   \<and> posts_to ''reply'' (new_events (demo_world 0 fresh_token (Some (demo_runtime silent_run)))
      (snd (demo_process silent_run))) = []
   \<and> posts_to ''createReply'' (new_events (demo_world 0 fresh_token (Some (demo_runtime silent_run)))
      (snd (demo_process silent_run))) = []
   \<and> map url_path (graph_requests (new_events (demo_world 0 fresh_token (Some (demo_runtime silent_run)))
      (snd (demo_process silent_run))))
     = [[''users'', ''helpdesk@example.com'', ''messages'', ''m1'']]"
proof -
  let ?new = "new_events (demo_world 0 fresh_token (Some (demo_runtime silent_run)))
      (snd (demo_process silent_run))"
  have s: "sink_calls ?new
     = [(\<lparr>payload_text = None\<rparr>, ''block''), (\<lparr>payload_text = Some []\<rparr>, ''final'')]"
    by (simp add: demo_process_defs sink_calls_def sink_call_of_def)
  then have q: "list_all (\<lambda>c. \<not> truthy (payload_text (fst c))) (sink_calls ?new)"
    by (simp add: truthy_def)
  have e: "processMessage (stub_env [] None) (demo_cfg None) demo_creds ''helpdesk@example.com''
       (demo_msg ''m1'' ''Alice@B.com'' ''2024-01-01T00:00:00Z'') True
       (demo_world 0 fresh_token (Some (demo_runtime silent_run))) = demo_process silent_run"
    by (simp add: demo_process_def)
  from no_text_no_reply [of "demo_world 0 fresh_token (Some (demo_runtime silent_run))"
      "stub_env [] None" "demo_cfg None" demo_creds "''helpdesk@example.com''"
      "demo_msg ''m1'' ''Alice@B.com'' ''2024-01-01T00:00:00Z''" True] q
  have p: "posts_to ''reply'' ?new = [] \<and> posts_to ''createReply'' ?new = []"
    by (simp only: e)
  have g: "map url_path (graph_requests ?new) = [[''users'', ''helpdesk@example.com'', ''messages'', ''m1'']]"
    by (simp add: demo_process_defs graph_requests_def graph_request_of_def GRAPH_def)
  from s p g show ?thesis by blast
qed

section \<open>The session key\<close>













section \<open>A failing dispatch does not stop the cycle\<close>

lemma processMessage_thrown:
  assumes rt: "runtime w = Some core"
    and m: "markAsRead E creds mbox (msg_id msg) (log_event (processing_line msg) w) = (Inr (), w1)"
    and thrown: "dispatch_of E cfg creds mbox msg d core w1 = (Inl err, s)"
  shows "processMessage E cfg creds mbox msg d w
           = (Inr (), log_event DispatchIdle
                (log_event (LogError (''[outlook] dispatch failed for id='' @ msg_id msg
                                      @ '': '' @ String_err err)) (snd s)))"
  using rt m thrown
  by (simp add: processMessage_runtime processing_line_def dispatch_of_def)

lemma processMessage_begins:
  assumes rt: "runtime w = Some core"
  shows "\<exists>evs. new_events w (snd (processMessage E cfg creds mbox msg d w)) = processing_line msg # evs"
proof -
  obtain r1 w1 where m: "markAsRead E creds mbox (msg_id msg) (log_event (processing_line msg) w) = (r1, w1)"
    by (cases "markAsRead E creds mbox (msg_id msg) (log_event (processing_line msg) w)")
  show ?thesis
  proof (cases r1)
    case (Inl e)
    with m rt show ?thesis by (blast dest: processMessage_unmarked)
  next
    case (Inr u)
    obtain r2 s3 where rd: "run_dispatch (deliver E creds mbox msg d)
               (dispatchReplyFromConfig core
                  (finalizeInboundContext core (inbound_context E mbox msg)) cfg)
               ([], log_event (DispatchStart
                  (finalizeInboundContext core (inbound_context E mbox msg))) w1) = (r2, s3)"
      by (cases "run_dispatch (deliver E creds mbox msg d)
               (dispatchReplyFromConfig core
                  (finalizeInboundContext core (inbound_context E mbox msg)) cfg)
               ([], log_event (DispatchStart
                  (finalizeInboundContext core (inbound_context E mbox msg))) w1)")
    from m Inr have m': "markAsRead E creds mbox (msg_id msg) (log_event (processing_line msg) w) = (Inr u, w1)"
      by simp
    from processMessage_dispatched [OF rt m' rd] show ?thesis by blast
  qed
qed

text \<open>
  Claim C6. Let the dispatch for message A throw while A is processed in a cycle (A has been
  marked read, the runtime is there). Then \<open>processMessage\<close> returns normally for A; the
  last two events it leaves are the error log line, which names A's message id and the
  error, and the dispatch-idle notification. The loop over the messages of the cycle
  reaches the turn of the next message B exactly as it does after a successful A. At that
  turn, as at every turn, the loop looks at the stop request: unless it has arrived by then,
  B is processed, and B's processing begins with its first log line.
\<close>

theorem dispatch_error_contained:
  assumes rt: "runtime w = Some core"
    and m: "markAsRead E creds mbox (msg_id A) (log_event (processing_line A) w) = (Inr (), w1)"
    and thrown: "dispatch_of E cfg creds mbox A d core w1 = (Inl err, s)"
    and live: "\<not> aborted E w"
  shows "processMessage E cfg creds mbox A d w
           = (Inr (), log_event DispatchIdle
                (log_event (LogError (''[outlook] dispatch failed for id='' @ msg_id A
                                      @ '': '' @ String_err err)) (snd s)))
       \<and> process_messages E cfg creds mbox d (A # B # rest) w
           = process_messages E cfg creds mbox d (B # rest)
               (snd (processMessage E cfg creds mbox A d w))
       \<and> (\<not> aborted E (snd (processMessage E cfg creds mbox A d w)) \<longrightarrow>
            process_messages E cfg creds mbox d (A # B # rest) w
              = (case processMessage E cfg creds mbox B d
                        (snd (processMessage E cfg creds mbox A d w)) of
                   (Inl e, w2) \<Rightarrow> (Inl e, w2)
                 | (Inr u, w2) \<Rightarrow> process_messages E cfg creds mbox d rest w2))
       \<and> (\<exists>evs. new_events (snd (processMessage E cfg creds mbox A d w))
                  (snd (processMessage E cfg creds mbox B d (snd (processMessage E cfg creds mbox A d w))))
                = processing_line B # evs)"
proof -
  let ?wA = "log_event DispatchIdle
                (log_event (LogError (''[outlook] dispatch failed for id='' @ msg_id A
                                      @ '': '' @ String_err err)) (snd s))"
  have pm: "processMessage E cfg creds mbox A d w = (Inr (), ?wA)"
    using rt m thrown by (rule processMessage_thrown)
  from live pm
  have turn: "process_messages E cfg creds mbox d (A # B # rest) w
           = process_messages E cfg creds mbox d (B # rest)
               (snd (processMessage E cfg creds mbox A d w))"
    by simp
  have go: "\<not> aborted E (snd (processMessage E cfg creds mbox A d w)) \<longrightarrow>
            process_messages E cfg creds mbox d (A # B # rest) w
              = (case processMessage E cfg creds mbox B d
                        (snd (processMessage E cfg creds mbox A d w)) of
                   (Inl e, w2) \<Rightarrow> (Inl e, w2)
                 | (Inr u, w2) \<Rightarrow> process_messages E cfg creds mbox d rest w2)"
    unfolding turn by simp
  have "extends (message_event E core mbox A d) w (snd (processMessage E cfg creds mbox A d w))"
    using rt by (rule extends_processMessage)
  then have "runtime (snd (processMessage E cfg creds mbox A d w)) = Some core"
    using rt by (simp add: extends_def)
  then have begins: "\<exists>evs. new_events (snd (processMessage E cfg creds mbox A d w))
                  (snd (processMessage E cfg creds mbox B d (snd (processMessage E cfg creds mbox A d w))))
                = processing_line B # evs"
    by (rule processMessage_begins)
  from pm turn go begins show ?thesis by (intro conjI)
qed

lemmas demo_messages_defs =
  two_messages_def moody_runtime_def two_chunks_def processMessage_def getOutlookRuntime_def
  demo_world_def fresh_token_def chunk_def log_event_def markAsRead_def
  graphFetch_def getGraphAccessToken_def do_fetch_def stub_env_def ok_response_def Let_def
  deliver_def createDraftReply_def replyToMessage_def truthy_def demo_msg_def demo_creds_def
  senderAddress_of_def inbound_context_def aborted_def processing_line_def dispatch_of_def

theorem dispatch_error_contained_witness:
  "fst (processMessage (stub_env [] None) (demo_cfg None) demo_creds ''helpdesk@example.com''
          (demo_msg ''m1'' ''a@b.com'' ''2024-01-01T00:00:00Z'') True
          (demo_world 0 fresh_token (Some moody_runtime))) = Inr ()
   \<and> drop 3 (trace (snd (processMessage (stub_env [] None) (demo_cfg None) demo_creds
          ''helpdesk@example.com'' (demo_msg ''m1'' ''a@b.com'' ''2024-01-01T00:00:00Z'') True
          (demo_world 0 fresh_token (Some moody_runtime)))))
       = [LogError ''[outlook] dispatch failed for id=m1: Error: boom'', DispatchIdle]
   \<and> fst two_messages = Inr ()
   \<and> map url_path (graph_requests (trace (snd two_messages)))
       = [[''users'', ''helpdesk@example.com'', ''messages'', ''m1''],
          [''users'', ''helpdesk@example.com'', ''messages'', ''m2''],
          [''users'', ''helpdesk@example.com'', ''messages'', ''m2'', ''createReply'']]"
proof -
  let ?E = "stub_env [] None"
  let ?A = "demo_msg ''m1'' ''a@b.com'' ''2024-01-01T00:00:00Z''"
  let ?B = "demo_msg ''m2'' ''a@b.com'' ''2024-01-02T00:00:00Z''"
  let ?w = "demo_world 0 fresh_token (Some moody_runtime)"
  let ?m = "markAsRead ?E demo_creds ''helpdesk@example.com'' (msg_id ?A) (log_event (processing_line ?A) ?w)"
  let ?d = "dispatch_of ?E (demo_cfg None) demo_creds ''helpdesk@example.com'' ?A True moody_runtime (snd ?m)"
  have rt: "runtime ?w = Some moody_runtime" by (simp add: demo_world_def)
  have "fst ?m = Inr ()" by (simp add: demo_messages_defs)
  then have m: "?m = (Inr (), snd ?m)" by (metis prod.collapse)
  have "fst ?d = Inl (Error ''boom'')" by (simp add: demo_messages_defs)
  then have thrown: "?d = (Inl (Error ''boom''), snd ?d)" by (metis prod.collapse)
  have live: "\<not> aborted ?E ?w" by (simp add: aborted_def stub_env_def)
  have live': "\<not> aborted ?E (snd (processMessage ?E (demo_cfg None) demo_creds
      ''helpdesk@example.com'' ?A True ?w))"
    by (simp add: aborted_def stub_env_def)
  note th = dispatch_error_contained [OF rt m thrown live, of ?B "[]"]
  from th have a: "fst (processMessage ?E (demo_cfg None) demo_creds ''helpdesk@example.com'' ?A True ?w)
      = Inr ()"
    by simp
  have b: "drop 3 (trace (snd (processMessage ?E (demo_cfg None) demo_creds
          ''helpdesk@example.com'' ?A True ?w)))
       = [LogError ''[outlook] dispatch failed for id=m1: Error: boom'', DispatchIdle]"
    by (simp add: demo_messages_defs String_err_def)
  have c: "fst two_messages = Inr ()"
    by (simp add: demo_messages_defs)
  have d: "map url_path (graph_requests (trace (snd two_messages)))
       = [[''users'', ''helpdesk@example.com'', ''messages'', ''m1''],
          [''users'', ''helpdesk@example.com'', ''messages'', ''m2''],
          [''users'', ''helpdesk@example.com'', ''messages'', ''m2'', ''createReply'']]"
    by (simp add: demo_messages_defs graph_requests_def graph_request_of_def GRAPH_def)
  from a b c d show ?thesis by blast
qed

section \<open>Cancelling during the sleep\<close>



section \<open>The order of the unread messages\<close>

lemma listUnreadMessages_Inr:
  assumes "listUnreadMessages E creds mbox n w = (Inr msgs, w')"
  shows "\<exists>tok pre res.
           trace w' = trace w @ pre
             @ [Fetch (graph_request tok [''users'', mbox, ''mailfolders'', ''inbox'', ''messages'']
                  [(''$filter'', ''isRead eq false''),
                   (''$orderby'', ''receivedDateTime asc''),
                   (''$top'', String_int n),
                   (''$select'', ''id,subject,body,from,receivedDateTime,isRead,conversationId'')]
                  ''GET'' NoBody) (Inr res)]
           \<and> list_all is_token_fetch pre \<and> res_ok res \<and> msgs = json_value res"
proof -
  let ?q = "[(''$filter'', ''isRead eq false''),
             (''$orderby'', ''receivedDateTime asc''),
             (''$top'', String_int n),
             (''$select'', ''id,subject,body,from,receivedDateTime,isRead,conversationId'')]"
  obtain r w1 where g: "graphFetch E creds [''users'', mbox, ''mailfolders'', ''inbox'', ''messages'']
             ?q ''GET'' NoBody w = (r, w1)"
    by (cases "graphFetch E creds [''users'', mbox, ''mailfolders'', ''inbox'', ''messages'']
             ?q ''GET'' NoBody w")
  show ?thesis
  proof (cases r)
    case (Inl e)
    with g assms show ?thesis by (simp add: listUnreadMessages_def)
  next
    case (Inr res)
    with g assms have ok: "res_ok res" and w: "w1 = w'" and ms: "msgs = json_value res"
      by (auto simp: listUnreadMessages_def split: if_splits)
    from g Inr w have "graphFetch E creds [''users'', mbox, ''mailfolders'', ''inbox'', ''messages'']
             ?q ''GET'' NoBody w = (Inr res, w')" by simp
    then obtain tok pre where "trace w' = trace w @ pre
        @ [Fetch (graph_request tok [''users'', mbox, ''mailfolders'', ''inbox'', ''messages'']
             ?q ''GET'' NoBody) (Inr res)]" and "list_all is_token_fetch pre"
      by (auto dest: graphFetch_Inr)
    with ok ms show ?thesis by blast
  qed
qed

text \<open>
  Claim C5, as the code has it. \<open>listUnreadMessages\<close> does not sort: it asks the provider for
  the unread messages in ascending order of \<open>receivedDateTime\<close> (the \<open>$orderby\<close> parameter of
  its one request) and returns the list of the answer as it is. So the result is in
  non-decreasing receive-time order exactly when the transport's answer is.
\<close>

theorem listUnread_order_as_requested:
  assumes "listUnreadMessages E creds mbox n w = (Inr msgs, w')"
  shows "\<exists>req res. last (trace w') = Fetch req (Inr res)
           \<and> map_of (url_query req) ''$orderby'' = Some ''receivedDateTime asc''
           \<and> map_of (url_query req) ''$filter'' = Some ''isRead eq false''
           \<and> msgs = json_value res
           \<and> (received_ascending E msgs \<longleftrightarrow> received_ascending E (json_value res))"
proof -
  from listUnreadMessages_Inr [OF assms] obtain tok pre res where
    t: "trace w' = trace w @ pre
             @ [Fetch (graph_request tok [''users'', mbox, ''mailfolders'', ''inbox'', ''messages'']
                  [(''$filter'', ''isRead eq false''),
                   (''$orderby'', ''receivedDateTime asc''),
                   (''$top'', String_int n),
                   (''$select'', ''id,subject,body,from,receivedDateTime,isRead,conversationId'')]
                  ''GET'' NoBody) (Inr res)]"
    and ms: "msgs = json_value res"
    by blast
  from t have "last (trace w') = Fetch (graph_request tok [''users'', mbox, ''mailfolders'', ''inbox'', ''messages'']
                  [(''$filter'', ''isRead eq false''),
                   (''$orderby'', ''receivedDateTime asc''),
                   (''$top'', String_int n),
                   (''$select'', ''id,subject,body,from,receivedDateTime,isRead,conversationId'')]
                  ''GET'' NoBody) (Inr res)"
    by simp
  moreover have "map_of (url_query (graph_request tok [''users'', mbox, ''mailfolders'', ''inbox'', ''messages'']
                  [(''$filter'', ''isRead eq false''),
                   (''$orderby'', ''receivedDateTime asc''),
                   (''$top'', String_int n),
                   (''$select'', ''id,subject,body,from,receivedDateTime,isRead,conversationId'')]
                  ''GET'' NoBody)) ''$orderby'' = Some ''receivedDateTime asc''"
    by (simp add: graph_request_def)
  moreover have "map_of (url_query (graph_request tok [''users'', mbox, ''mailfolders'', ''inbox'', ''messages'']
                  [(''$filter'', ''isRead eq false''),
                   (''$orderby'', ''receivedDateTime asc''),
                   (''$top'', String_int n),
                   (''$select'', ''id,subject,body,from,receivedDateTime,isRead,conversationId'')]
                  ''GET'' NoBody)) ''$filter'' = Some ''isRead eq false''"
    by (simp add: graph_request_def)
  ultimately show ?thesis using ms by blast
qed

lemmas listing_defs =
  listUnreadMessages_def graphFetch_def getGraphAccessToken_def do_fetch_def unordered_env_def
  stub_env_def ok_response_def demo_world_def fresh_token_def Let_def

theorem listUnread_order_as_requested_witness:
  "listUnreadMessages unordered_env demo_creds ''helpdesk@example.com'' 20 (demo_world 0 fresh_token None)
     = (Inr [late_msg, early_msg],
        snd (listUnreadMessages unordered_env demo_creds ''helpdesk@example.com'' 20
               (demo_world 0 fresh_token None)))
   \<and> (\<exists>req res. last (trace (snd (listUnreadMessages unordered_env demo_creds
                     ''helpdesk@example.com'' 20 (demo_world 0 fresh_token None))))
                  = Fetch req (Inr res)
         \<and> map_of (url_query req) ''$orderby'' = Some ''receivedDateTime asc''
         \<and> [late_msg, early_msg] = json_value res)"
proof -
  let ?l = "listUnreadMessages unordered_env demo_creds ''helpdesk@example.com'' 20
               (demo_world 0 fresh_token None)"
  have "fst ?l = Inr [late_msg, early_msg]" by (simp add: listing_defs)
  then have r: "?l = (Inr [late_msg, early_msg], snd ?l)" by (metis prod.collapse)
  from listUnread_order_as_requested [OF r] r show ?thesis by blast
qed

theorem listUnread_unsorted_counterexample:
  "fst (listUnreadMessages unordered_env demo_creds ''helpdesk@example.com'' 20
          (demo_world 0 fresh_token None)) = Inr [late_msg, early_msg]
   \<and> \<not> received_ascending unordered_env [late_msg, early_msg]"
proof
  show "fst (listUnreadMessages unordered_env demo_creds ''helpdesk@example.com'' 20
          (demo_world 0 fresh_token None)) = Inr [late_msg, early_msg]"
    by (simp add: listing_defs)
  show "\<not> received_ascending unordered_env [late_msg, early_msg]"
    by (simp add: received_ascending_def unordered_env_def late_msg_def early_msg_def
          demo_msg_def demo_getTime_def)
qed

section \<open>Proactive messages\<close>





end
